theory Spec2Isabelle
  imports Complex_Main "HOL-Library.Word"
begin

unbundle bit_operations_syntax

section \<open>Boxes of an MPEG-4 file\<close>

type_synonym byte = "8 word"

text \<open>
  Modelled from the spec: the data members of \<open>Box\<close> (box.h is not among the
  sources). "Four-byte type tag (not null-terminated, compared by raw bytes), header
  size (8 bytes normal, 16 bytes extended), byte position of the box's start in the
  source stream, content size (payload bytes excluding header)". The three numbers
  are kept as 32-bit unsigned values, the width of \<open>iNewPos\<close>, \<open>iPos\<close>,
  \<open>iSize\<close> and \<open>m_iFirstMDatPos\<close> that the code adds them to.
\<close>

record Box =
  m_name :: "byte list"
  m_iPosition :: "32 word"
  m_iHeaderSize :: "32 word"
  m_iContentSize :: "32 word"

text \<open>
  Modelled from the spec: \<open>Box::size\<close> (box.cpp is not among the sources):
  "\<open>size()\<close> \<rightarrow> header size + content size; pure, no I/O".
\<close>

definition size_box :: "'a Box_scheme \<Rightarrow> 32 word" where
  "size_box b = m_iHeaderSize b + m_iContentSize b"

text \<open>\<open>memcmp (a, b, n) == 0\<close>: the first \<open>n\<close> bytes agree.\<close>

definition memcmp_eq :: "byte list \<Rightarrow> byte list \<Rightarrow> nat \<Rightarrow> bool" where
  "memcmp_eq a b n \<longleftrightarrow> take n a = take n b"

text \<open>
  Modelled from the spec: the tag constants of constants.h (not among the sources),
  the ASCII bytes of "moov", "free", "mdat", "ftyp" and "SA3D".
\<close>

definition TAG_MOOV :: "byte list" where "TAG_MOOV = [0x6D, 0x6F, 0x6F, 0x76]"
definition TAG_FREE :: "byte list" where "TAG_FREE = [0x66, 0x72, 0x65, 0x65]"
definition TAG_MDAT :: "byte list" where "TAG_MDAT = [0x6D, 0x64, 0x61, 0x74]"
definition TAG_FTYP :: "byte list" where "TAG_FTYP = [0x66, 0x74, 0x79, 0x70]"
definition TAG_SA3D :: "byte list" where "TAG_SA3D = [0x53, 0x41, 0x33, 0x44]"

section \<open>Mpeg4Container\<close>

text \<open>
  The four tracked pointers point into the container's own child list; a pointer is
  modelled as the index of the child it points to, \<open>None\<close> for \<open>NULL\<close>. Of the
  inherited \<open>Box\<close> members only the content size is touched by the code below; it
  is the field \<open>m_iContentSize_c\<close>.
\<close>

record Mpeg4Container =
  m_listContents :: "Box list"
  m_iContentSize_c :: "32 word"
  m_pMoovBox :: "nat option"
  m_pFreeBox :: "nat option"
  m_pFTYPBox :: "nat option"
  m_pFirstMDatBox :: "nat option"
  m_iFirstMDatPos :: "32 word"

text \<open>The constructor \<open>Mpeg4Container::Mpeg4Container\<close>.\<close>

definition new_Mpeg4Container :: Mpeg4Container where
  "new_Mpeg4Container =
    \<lparr> m_listContents = [], m_iContentSize_c = 0, m_pMoovBox = None, m_pFreeBox = None,
      m_pFTYPBox = None, m_pFirstMDatBox = None, m_iFirstMDatPos = 0 \<rparr>"

datatype load_error = FailedToLoad | NoMoovBox | NoMdatBox

text \<open>
  The first loop of \<open>Mpeg4Container::load\<close>: one pass over the parsed list,
  \<open>i\<close> is the index of \<open>pBox\<close>.
\<close>

fun identify :: "Box list \<Rightarrow> nat \<Rightarrow> Mpeg4Container \<Rightarrow> Mpeg4Container" where
  "identify [] i pNewBox = pNewBox"
| "identify (pBox # rest) i pNewBox =
    (let b1 = (if memcmp_eq (m_name pBox) TAG_MOOV 4
               then pNewBox\<lparr>m_pMoovBox := Some i\<rparr> else pNewBox);
         b2 = (if memcmp_eq (m_name pBox) TAG_FREE 4
               then b1\<lparr>m_pFreeBox := Some i\<rparr> else b1);
         b3 = (if memcmp_eq (m_name pBox) TAG_MDAT 4 \<and> m_pFirstMDatBox b2 = None
               then b2\<lparr>m_pFirstMDatBox := Some i\<rparr> else b2);
         b4 = (if memcmp_eq (m_name pBox) TAG_FTYP 4
               then b3\<lparr>m_pFTYPBox := Some i\<rparr> else b3)
     in identify rest (Suc i) b4)"

text \<open>The last loop of \<open>Mpeg4Container::load\<close>: the sizes of the children, added up.\<close>

fun add_sizes :: "Box list \<Rightarrow> 32 word \<Rightarrow> 32 word" where
  "add_sizes [] acc = acc"
| "add_sizes (pBox # rest) acc = add_sizes rest (acc + size_box pBox)"

text \<open>
  \<open>Mpeg4Container::load\<close>, from the list that \<open>load_multiple (fsIn, 0, iSize)\<close>
  returned (\<open>load_multiple\<close> is in container.cpp, not among the sources). Every
  \<open>return NULL\<close> is an \<open>Inl\<close>.
\<close>

definition Mpeg4Container_load :: "Box list \<Rightarrow> load_error + Mpeg4Container" where
  "Mpeg4Container_load list =
    (if list = [] then Inl FailedToLoad
     else
       let pNewBox = identify list 0 (new_Mpeg4Container\<lparr>m_listContents := list\<rparr>) in
       if m_pMoovBox pNewBox = None then Inl NoMoovBox
       else case m_pFirstMDatBox pNewBox of
         None \<Rightarrow> Inl NoMdatBox
       | Some k \<Rightarrow>
           let pFirstMDatBox = m_listContents pNewBox ! k;
               b1 = pNewBox\<lparr>m_iFirstMDatPos := m_iPosition pFirstMDatBox\<rparr>;
               b2 = b1\<lparr>m_iFirstMDatPos := m_iFirstMDatPos b1 + m_iHeaderSize pFirstMDatBox\<rparr>;
               b3 = b2\<lparr>m_iContentSize_c := 0\<rparr>
           in Inr (b3\<lparr>m_iContentSize_c := add_sizes (m_listContents b3) (m_iContentSize_c b3)\<rparr>))"

text \<open>
  \<open>Mpeg4Container::merge\<close> writes one line to \<open>std::cerr\<close> and calls
  \<open>exit (0)\<close>. A call either returns with the state it leaves, or ends the
  process with an exit status and the state at that point; the state is the
  container and what has been written to \<open>std::cerr\<close>.
\<close>

datatype 's outcome = Returns 's | Exits int 's

definition merge :: "Mpeg4Container \<Rightarrow> Box \<Rightarrow> string \<Rightarrow> (Mpeg4Container \<times> string) outcome" where
  "merge this pElement cerr = Exits 0 (this, cerr @ ''Cannot merge mpeg4 files'' @ [CHR 0x0A])"

text \<open>
  Modelled from the spec: \<open>Container::resize\<close> and the virtual \<open>resize\<close> of
  the children (container.cpp and box.cpp are not among the sources): "recursively
  recomputes content size bottom-up (for composite boxes, by summing children); leaf
  boxes recompute from their own field widths". What a child's own \<open>resize\<close>
  makes of its content size is the parameter \<open>rs\<close>.
\<close>

definition resize :: "(Box \<Rightarrow> 32 word) \<Rightarrow> Mpeg4Container \<Rightarrow> Mpeg4Container" where
  "resize rs this =
    (let kids = map (\<lambda>pBox. pBox\<lparr>m_iContentSize := rs pBox\<rparr>) (m_listContents this)
     in this\<lparr>m_listContents := kids, m_iContentSize_c := add_sizes kids 0\<rparr>)"

text \<open>
  The first loop of \<open>Mpeg4Container::save\<close>: it stops at the first child whose
  tag is \<open>TAG_MDAT\<close>, or at the end of the list.
\<close>

fun new_pos :: "Box list \<Rightarrow> 32 word \<Rightarrow> 32 word" where
  "new_pos [] iNewPos = iNewPos"
| "new_pos (pBox # rest) iNewPos =
    (if memcmp_eq (m_name pBox) TAG_MDAT 4 then iNewPos + m_iHeaderSize pBox
     else new_pos rest (iNewPos + size_box pBox))"

text \<open>
  \<open>Mpeg4Container::save\<close>. The children's \<open>save\<close> is virtual and writes the
  file; what the container does is the sequence of these calls, each recorded with
  the child and the value of the \<open>int32_t\<close> argument it receives: the 32 bits
  of the \<open>uint32_t iDelta\<close>, read as a signed number.
\<close>

definition iDelta_of :: "Mpeg4Container \<Rightarrow> 32 word" where
  "iDelta_of this = new_pos (m_listContents this) 0 - m_iFirstMDatPos this"

definition Mpeg4Container_save ::
    "(Box \<Rightarrow> 32 word) \<Rightarrow> Mpeg4Container \<Rightarrow> Mpeg4Container \<times> (Box \<times> int) list" where
  "Mpeg4Container_save rs this =
    (let this1 = resize rs this;
         iDelta = iDelta_of this1
     in (this1, map (\<lambda>pBox. (pBox, sint iDelta)) (m_listContents this1)))"

section \<open>Binary I/O\<close>

text \<open>
  Modelled from the spec: the read and write helpers of \<open>Box\<close> (box.cpp is not
  among the sources): "read/write fixed-width big-endian unsigned integers
  (8/32/64-bit) at the stream's current position, advancing it. No bounds checking
  beyond what the caller performs; a short read is a fatal condition for the caller
  to detect (stream error state), not signaled per-call". An input stream is its
  bytes \<open>fs\<close> and the read position \<open>p\<close>; a read returns the value and the new
  position, also when it passes the last byte. Where the stream has no byte, the
  read leaves its buffer as it was: that byte is indeterminate in C++, and here it is
  \<open>junk q\<close>, a parameter that gives one byte for each offset \<open>q\<close>. Once a read
  has passed the end every later read does, so every byte from the end on is junk.
\<close>

definition be32 :: "byte \<Rightarrow> byte \<Rightarrow> byte \<Rightarrow> byte \<Rightarrow> 32 word" where
  "be32 a b c d =
    push_bit 24 (ucast a) OR push_bit 16 (ucast b) OR push_bit 8 (ucast c) OR ucast d"

definition byte_at :: "(nat \<Rightarrow> byte) \<Rightarrow> byte list \<Rightarrow> nat \<Rightarrow> byte" where
  "byte_at junk fs q = (if q < length fs then fs ! q else junk q)"

definition read_bytes :: "(nat \<Rightarrow> byte) \<Rightarrow> byte list \<Rightarrow> nat \<Rightarrow> nat \<Rightarrow> byte list \<times> nat" where
  "read_bytes junk fs p n = (map (byte_at junk fs) [p..<p + n], p + n)"

definition readUint8 :: "(nat \<Rightarrow> byte) \<Rightarrow> byte list \<Rightarrow> nat \<Rightarrow> 8 word \<times> nat" where
  "readUint8 junk fs p = (byte_at junk fs p, p + 1)"

definition readUint32 :: "(nat \<Rightarrow> byte) \<Rightarrow> byte list \<Rightarrow> nat \<Rightarrow> 32 word \<times> nat" where
  "readUint32 junk fs p =
    (be32 (byte_at junk fs p) (byte_at junk fs (p + 1))
          (byte_at junk fs (p + 2)) (byte_at junk fs (p + 3)), p + 4)"

definition readUint64 :: "(nat \<Rightarrow> byte) \<Rightarrow> byte list \<Rightarrow> nat \<Rightarrow> 64 word \<times> nat" where
  "readUint64 junk fs p =
    (push_bit 32 (ucast (be32 (byte_at junk fs p) (byte_at junk fs (p + 1))
                              (byte_at junk fs (p + 2)) (byte_at junk fs (p + 3))))
     OR ucast (be32 (byte_at junk fs (p + 4)) (byte_at junk fs (p + 5))
                    (byte_at junk fs (p + 6)) (byte_at junk fs (p + 7))),
     p + 8)"

definition writeUint8 :: "8 word \<Rightarrow> byte list" where
  "writeUint8 v = [v]"

definition writeUint32 :: "32 word \<Rightarrow> byte list" where
  "writeUint32 v = [ucast (drop_bit 24 v), ucast (drop_bit 16 v), ucast (drop_bit 8 v), ucast v]"

definition writeUint64 :: "64 word \<Rightarrow> byte list" where
  "writeUint64 v = writeUint32 (ucast (drop_bit 32 v)) @ writeUint32 (ucast v)"

section \<open>SA3DBox\<close>

text \<open>
  The members a \<open>SA3DBox\<close> adds to a \<open>Box\<close> (sa3d.h is not among the sources):
  each has the width of the \<open>readUint8\<close> or \<open>readUint32\<close> that fills it, and
  the channel map is the \<open>std::vector\<close> of \<open>uint32_t\<close> that \<open>save\<close> walks.
  The three name tables that the constructor seeds are used by no code and left out.
\<close>

record SA3DBox = Box +
  m_iVersion :: "8 word"
  m_iAmbisonicType :: "8 word"
  m_iAmbisonicOrder :: "32 word"
  m_iAmbisonicChannelOrdering :: "8 word"
  m_iAmbisonicNormalization :: "8 word"
  m_iNumChannels :: "32 word"
  m_ChannelMap :: "32 word list"

text \<open>The constructor \<open>SA3DBox::SA3DBox\<close>.\<close>

definition new_SA3DBox :: SA3DBox where
  "new_SA3DBox =
    \<lparr> m_name = take 4 TAG_SA3D, m_iPosition = 0, m_iHeaderSize = 8, m_iContentSize = 0,
      m_iVersion = 0, m_iAmbisonicType = 0, m_iAmbisonicOrder = 0,
      m_iAmbisonicChannelOrdering = 0, m_iAmbisonicNormalization = 0,
      m_iNumChannels = 0, m_ChannelMap = [] \<rparr>"

text \<open>
  Modelled from the spec: \<open>sizeof (*constants::TAG_SA3D)\<close>, the number of bytes
  that \<open>SA3DBox::load\<close> hands to \<open>memcmp\<close>. constants.h is not among the
  sources; the tag constants are character data (a tag is "a 4-byte ASCII-like tag",
  read by \<open>fs.read\<close> into \<open>char name[4]\<close> and copied by \<open>memcpy\<close> into
  \<open>m_name\<close>), so one element of the constant is one \<open>char\<close>, of size 1.
\<close>

definition sizeof_deref_TAG_SA3D :: nat where
  "sizeof_deref_TAG_SA3D = 1"

datatype sa3d_error = NotSA3DBox | ExceedsBounds

text \<open>One read of \<open>SA3DBox::load\<close>, and what follows it.\<close>

definition rd :: "'a \<times> nat \<Rightarrow> ('a \<Rightarrow> nat \<Rightarrow> 'b) \<Rightarrow> 'b" where
  "rd r k = (case r of (v, p) \<Rightarrow> k v p)"

text \<open>
  The loop of \<open>SA3DBox::load\<close> that fills the channel map; \<open>n\<close> counts the
  entries still to read.
\<close>

fun read_map ::
    "(nat \<Rightarrow> byte) \<Rightarrow> byte list \<Rightarrow> nat \<Rightarrow> nat \<Rightarrow> 32 word list \<Rightarrow> 32 word list \<times> nat" where
  "read_map junk fs p 0 cmap = (cmap, p)"
| "read_map junk fs p (Suc n) cmap =
    (case readUint32 junk fs p of (iVal, q) \<Rightarrow> read_map junk fs q n (cmap @ [iVal]))"

text \<open>
  \<open>SA3DBox::load\<close>. \<open>iPos\<close> is unsigned, so the branch on \<open>iPos < 0\<close> is
  never taken. The 64-bit size is cut to 32 bits by the cast. The two
  \<open>return NULL\<close> are \<open>Inl NotSA3DBox\<close> and \<open>Inl ExceedsBounds\<close>; the state
  of the stream is never tested, so on every other path a box is returned.
\<close>

definition SA3DBox_load ::
    "(nat \<Rightarrow> byte) \<Rightarrow> byte list \<Rightarrow> 32 word \<Rightarrow> 32 word \<Rightarrow> sa3d_error + SA3DBox" where
  "SA3DBox_load junk fs iPos iEnd =
    rd (readUint32 junk fs (unat iPos)) (\<lambda>iSize p.
    rd (read_bytes junk fs p 4) (\<lambda>name p.
    rd (if iSize = 1 then rd (readUint64 junk fs p) (\<lambda>v q. (ucast v, q))
        else (iSize, p)) (\<lambda>iSize p.
    if \<not> memcmp_eq name TAG_SA3D sizeof_deref_TAG_SA3D then Inl NotSA3DBox
    else if iPos + iSize > iEnd then Inl ExceedsBounds
    else
      rd (readUint8 junk fs p) (\<lambda>iVersion p.
      rd (readUint8 junk fs p) (\<lambda>iAmbisonicType p.
      rd (readUint32 junk fs p) (\<lambda>iAmbisonicOrder p.
      rd (readUint8 junk fs p) (\<lambda>iAmbisonicChannelOrdering p.
      rd (readUint8 junk fs p) (\<lambda>iAmbisonicNormalization p.
      rd (readUint32 junk fs p) (\<lambda>iNumChannels p.
      rd (read_map junk fs p (unat iNumChannels) []) (\<lambda>cmap p.
        Inr (new_SA3DBox
          \<lparr> m_iPosition := iPos,
            m_iContentSize := iSize - m_iHeaderSize new_SA3DBox,
            m_iVersion := iVersion,
            m_iAmbisonicType := iAmbisonicType,
            m_iAmbisonicOrder := iAmbisonicOrder,
            m_iAmbisonicChannelOrdering := iAmbisonicChannelOrdering,
            m_iAmbisonicNormalization := iAmbisonicNormalization,
            m_iNumChannels := iNumChannels,
            m_ChannelMap := cmap \<rparr>)))))))))))"

text \<open>
  The conversion of the \<open>double\<close> value \<open>::sqrt (iNumChannels) - 1\<close> to the
  unsigned 32-bit member: the fraction is dropped. The \<open>double\<close> is taken as the
  real number: the square root of a 32-bit integer, correctly rounded, has the integer
  part of the exact root. C++ defines the conversion only for values from 0 to
  \<open>2 ^ 32 - 1\<close>; outside, the model wraps.
\<close>

definition double_to_uint32 :: "real \<Rightarrow> 32 word" where
  "double_to_uint32 x = word_of_int (if 0 \<le> x then \<lfloor>x\<rfloor> else \<lceil>x\<rceil>)"

text \<open>
  \<open>SA3DBox::create\<close>. The argument is an \<open>int32_t\<close>, here its 32 bits:
  \<open>::sqrt\<close> takes its signed value, the loop compares the \<open>uint32_t i\<close> with
  its unsigned value.
\<close>

definition SA3DBox_create :: "32 word \<Rightarrow> SA3DBox" where
  "SA3DBox_create iNumChannels =
    (let b = new_SA3DBox;
         b = b\<lparr>m_iHeaderSize := 8\<rparr>;
         b = b\<lparr>m_name := take 4 TAG_SA3D\<rparr>;
         b = b\<lparr>m_iAmbisonicOrder := double_to_uint32 (sqrt (real_of_int (sint iNumChannels)) - 1)\<rparr>;
         b = b\<lparr>m_iVersion := 0\<rparr>;
         b = b\<lparr>m_iContentSize := m_iContentSize b + 1\<rparr>;
         b = b\<lparr>m_iContentSize := m_iContentSize b + 1\<rparr>;
         b = b\<lparr>m_iContentSize := m_iContentSize b + 4\<rparr>;
         b = b\<lparr>m_iContentSize := m_iContentSize b + 1\<rparr>;
         b = b\<lparr>m_iContentSize := m_iContentSize b + 1\<rparr>;
         b = b\<lparr>m_iNumChannels := iNumChannels\<rparr>;
         b = b\<lparr>m_iContentSize := m_iContentSize b + 4\<rparr>
     in fold (\<lambda>i b. b\<lparr>m_ChannelMap := m_ChannelMap b @ [word_of_nat i],
                          m_iContentSize := m_iContentSize b + 4\<rparr>)
          [0..<unat iNumChannels] b)"

text \<open>
  \<open>SA3DBox::save\<close>: the bytes are appended to the output stream \<open>fsOut\<close>. A
  header size other than 16 or 8 writes no header.
\<close>

definition SA3DBox_save :: "SA3DBox \<Rightarrow> byte list \<Rightarrow> byte list" where
  "SA3DBox_save this fsOut =
    (let fsOut =
           (if m_iHeaderSize this = 16
            then fsOut @ writeUint32 1 @ take 4 (m_name this) @ writeUint64 (ucast (size_box this))
            else if m_iHeaderSize this = 8
            then fsOut @ writeUint32 (size_box this) @ take 4 (m_name this)
            else fsOut);
         fsOut = fsOut @ writeUint8 (m_iVersion this);
         fsOut = fsOut @ writeUint8 (m_iAmbisonicType this);
         fsOut = fsOut @ writeUint32 (m_iAmbisonicOrder this);
         fsOut = fsOut @ writeUint8 (m_iAmbisonicChannelOrdering this);
         fsOut = fsOut @ writeUint8 (m_iAmbisonicNormalization this);
         fsOut = fsOut @ writeUint32 (m_iNumChannels this)
     in foldl (\<lambda>out v. out @ writeUint32 v) fsOut (m_ChannelMap this))"

section \<open>Notions of the specification\<close>

text \<open>A box bears a tag: the four bytes of its name are those of the tag.\<close>

definition tagged :: "byte list \<Rightarrow> Box \<Rightarrow> bool" where
  "tagged tag b \<longleftrightarrow> memcmp_eq (m_name b) tag 4"

text \<open>The index of the first, and of the last, child in list order that bears a tag.\<close>

fun first_tagged :: "byte list \<Rightarrow> Box list \<Rightarrow> nat option" where
  "first_tagged tag [] = None"
| "first_tagged tag (b # bs) =
    (if tagged tag b then Some 0 else map_option Suc (first_tagged tag bs))"

fun last_tagged :: "byte list \<Rightarrow> Box list \<Rightarrow> nat option" where
  "last_tagged tag [] = None"
| "last_tagged tag (b # bs) =
    (case last_tagged tag bs of
       Some k \<Rightarrow> Some (Suc k)
     | None \<Rightarrow> if tagged tag b then Some 0 else None)"

text \<open>
  The new start of the media data, in the words of the specification: "the sum of the
  sizes of the top-level children preceding the first child tagged mdat, plus that
  child's header size". It is used only for lists that have such a child.
\<close>

definition newMediaDataStart :: "Box list \<Rightarrow> 32 word" where
  "newMediaDataStart kids =
    sum_list (map size_box (takeWhile (\<lambda>b. \<not> tagged TAG_MDAT b) kids))
    + m_iHeaderSize (hd (dropWhile (\<lambda>b. \<not> tagged TAG_MDAT b) kids))"

section \<open>Example boxes\<close>

text \<open>Boxes of a small file, for the concrete instances below.\<close>

abbreviation ex_ftyp :: Box where
  "ex_ftyp \<equiv> \<lparr>m_name = TAG_FTYP, m_iPosition = 0, m_iHeaderSize = 8, m_iContentSize = 16\<rparr>"
abbreviation ex_moov :: Box where
  "ex_moov \<equiv> \<lparr>m_name = TAG_MOOV, m_iPosition = 24, m_iHeaderSize = 8, m_iContentSize = 32\<rparr>"
abbreviation ex_mdat :: Box where
  "ex_mdat \<equiv> \<lparr>m_name = TAG_MDAT, m_iPosition = 64, m_iHeaderSize = 8, m_iContentSize = 100\<rparr>"
abbreviation ex_moov2 :: Box where
  "ex_moov2 \<equiv> \<lparr>m_name = TAG_MOOV, m_iPosition = 172, m_iHeaderSize = 8, m_iContentSize = 4\<rparr>"
abbreviation ex_mdat2 :: Box where
  "ex_mdat2 \<equiv> \<lparr>m_name = TAG_MDAT, m_iPosition = 184, m_iHeaderSize = 16, m_iContentSize = 8\<rparr>"
abbreviation ex_free :: Box where
  "ex_free \<equiv> \<lparr>m_name = TAG_FREE, m_iPosition = 208, m_iHeaderSize = 8, m_iContentSize = 0\<rparr>"
abbreviation ex_uuid :: Box where
  "ex_uuid \<equiv> \<lparr>m_name = [0x75, 0x75, 0x69, 0x64], m_iPosition = 0, m_iHeaderSize = 8, m_iContentSize = 12\<rparr>"

text \<open>An instance of the indeterminate bytes, for the concrete streams below.\<close>

definition ex_junk :: "nat \<Rightarrow> byte" where
  "ex_junk q = 0"

section \<open>Mpeg4Container: load\<close>

lemmas tag_defs = TAG_MOOV_def TAG_FREE_def TAG_MDAT_def TAG_FTYP_def TAG_SA3D_def

lemma first_tagged_Some_iff:
  "first_tagged tag bs = Some k \<longleftrightarrow>
     k < length bs \<and> tagged tag (bs ! k) \<and> (\<forall>j<k. \<not> tagged tag (bs ! j))"
proof (induction bs arbitrary: k)
  case Nil
  show ?case by simp
next
  case (Cons b bs)
  show ?case
  proof (cases "tagged tag b")
    case True
    then show ?thesis by (cases k) auto
  next
    case False
    show ?thesis
    proof (cases k)
      case 0
      with False show ?thesis by auto
    next
      case (Suc k')
      have "(\<forall>j<Suc k'. \<not> tagged tag ((b # bs) ! j)) \<longleftrightarrow> (\<forall>j<k'. \<not> tagged tag (bs ! j))"
        using False by (auto simp: less_Suc_eq_0_disj)
      with False Suc Cons.IH [of k'] show ?thesis by auto
    qed
  qed
qed

lemma first_tagged_None_iff:
  "first_tagged tag bs = None \<longleftrightarrow> (\<forall>b\<in>set bs. \<not> tagged tag b)"
  by (induction bs) auto

lemma last_tagged_None_iff:
  "last_tagged tag bs = None \<longleftrightarrow> (\<forall>b\<in>set bs. \<not> tagged tag b)"
  by (induction bs) (auto split: option.splits)

lemma last_tagged_Some_iff:
  "last_tagged tag bs = Some k \<longleftrightarrow>
     k < length bs \<and> tagged tag (bs ! k) \<and> (\<forall>j<length bs. k < j \<longrightarrow> \<not> tagged tag (bs ! j))"
proof (induction bs arbitrary: k)
  case Nil
  show ?case by simp
next
  case (Cons b bs)
  show ?case
  proof (cases "last_tagged tag bs")
    case None
    then have no: "\<forall>j<length bs. \<not> tagged tag (bs ! j)"
      by (simp add: last_tagged_None_iff)
    show ?thesis
    proof (cases k)
      case 0
      with None no show ?thesis by (auto simp: less_Suc_eq_0_disj)
    next
      case (Suc k')
      with None no show ?thesis by auto
    qed
  next
    case (Some m)
    then have m: "m < length bs" "tagged tag (bs ! m)"
      using Cons.IH [of m] by auto
    show ?thesis
    proof (cases k)
      case 0
      have "\<not> (\<forall>j<length (b # bs). 0 < j \<longrightarrow> \<not> tagged tag ((b # bs) ! j))"
        using m by (auto intro!: exI [of _ "Suc m"])
      with Some 0 show ?thesis by simp
    next
      case (Suc k')
      have "(\<forall>j<length (b # bs). Suc k' < j \<longrightarrow> \<not> tagged tag ((b # bs) ! j))
            \<longleftrightarrow> (\<forall>j<length bs. k' < j \<longrightarrow> \<not> tagged tag (bs ! j))"
        by (auto simp: less_Suc_eq_0_disj)
      with Some Suc Cons.IH [of k'] show ?thesis by auto
    qed
  qed
qed

lemma identify_keeps:
  "m_listContents (identify bs i c) = m_listContents c"
  "m_iContentSize_c (identify bs i c) = m_iContentSize_c c"
  "m_iFirstMDatPos (identify bs i c) = m_iFirstMDatPos c"
  by (induction bs arbitrary: i c) (simp_all add: Let_def)

lemma identify_moov:
  "m_pMoovBox (identify bs i c) =
     (case last_tagged TAG_MOOV bs of Some k \<Rightarrow> Some (i + k) | None \<Rightarrow> m_pMoovBox c)"
  by (induction bs arbitrary: i c) (simp_all add: Let_def tagged_def split: option.splits)

lemma identify_free:
  "m_pFreeBox (identify bs i c) =
     (case last_tagged TAG_FREE bs of Some k \<Rightarrow> Some (i + k) | None \<Rightarrow> m_pFreeBox c)"
  by (induction bs arbitrary: i c) (simp_all add: Let_def tagged_def split: option.splits)

lemma identify_ftyp:
  "m_pFTYPBox (identify bs i c) =
     (case last_tagged TAG_FTYP bs of Some k \<Rightarrow> Some (i + k) | None \<Rightarrow> m_pFTYPBox c)"
  by (induction bs arbitrary: i c) (simp_all add: Let_def tagged_def split: option.splits)

lemma identify_mdat:
  "m_pFirstMDatBox (identify bs i c) =
     (case m_pFirstMDatBox c of
        Some k \<Rightarrow> Some k
      | None \<Rightarrow> map_option ((+) i) (first_tagged TAG_MDAT bs))"
proof (induction bs arbitrary: i c)
  case Nil
  show ?case by (simp split: option.splits)
next
  case (Cons b bs)
  have shift: "map_option ((+) (Suc i)) r = map_option ((+) i) (map_option Suc r)"
    for r :: "nat option"
    by (cases r) simp_all
  show ?case
    by (simp add: Let_def tagged_def Cons.IH shift split: option.splits)
qed

lemma load_result:
  assumes "Mpeg4Container_load list = Inr c"
  shows "m_listContents c = list"
    and "m_pMoovBox c = last_tagged TAG_MOOV list"
    and "m_pFreeBox c = last_tagged TAG_FREE list"
    and "m_pFTYPBox c = last_tagged TAG_FTYP list"
    and "m_pFirstMDatBox c = first_tagged TAG_MDAT list"
    and "\<exists>k. first_tagged TAG_MDAT list = Some k \<and>
           m_iFirstMDatPos c = m_iPosition (list ! k) + m_iHeaderSize (list ! k)"
    and "m_iContentSize_c c = add_sizes list 0"
    and "last_tagged TAG_MOOV list \<noteq> None"
proof -
  define p where "p = identify list 0 (new_Mpeg4Container\<lparr>m_listContents := list\<rparr>)"
  have ids [simp]: "(+) (0::nat) = (\<lambda>k. k)" by auto
  have p: "m_listContents p = list"
    "m_pMoovBox p = last_tagged TAG_MOOV list"
    "m_pFreeBox p = last_tagged TAG_FREE list"
    "m_pFTYPBox p = last_tagged TAG_FTYP list"
    "m_pFirstMDatBox p = first_tagged TAG_MDAT list"
    unfolding p_def
    by (simp_all add: identify_keeps identify_moov identify_free identify_ftyp identify_mdat
        new_Mpeg4Container_def option.map_ident split: option.splits)
  from assms obtain k where k: "first_tagged TAG_MDAT list = Some k"
    and moov: "last_tagged TAG_MOOV list \<noteq> None"
    and c: "c = p\<lparr>m_iFirstMDatPos := m_iPosition (list ! k) + m_iHeaderSize (list ! k),
                  m_iContentSize_c := add_sizes list 0\<rparr>"
    unfolding Mpeg4Container_load_def p_def [symmetric]
    by (auto simp: Let_def p split: if_splits option.splits)
  show "m_listContents c = list" "m_pMoovBox c = last_tagged TAG_MOOV list"
    "m_pFreeBox c = last_tagged TAG_FREE list" "m_pFTYPBox c = last_tagged TAG_FTYP list"
    "m_pFirstMDatBox c = first_tagged TAG_MDAT list" "m_iContentSize_c c = add_sizes list 0"
    by (simp_all add: c p)
  show "\<exists>k. first_tagged TAG_MDAT list = Some k \<and>
           m_iFirstMDatPos c = m_iPosition (list ! k) + m_iHeaderSize (list ! k)"
    using k by (simp add: c)
  show "last_tagged TAG_MOOV list \<noteq> None" by (rule moov)
qed

lemma load_succeeds:
  assumes "last_tagged TAG_MOOV list \<noteq> None" and "first_tagged TAG_MDAT list \<noteq> None"
  shows "\<exists>c. Mpeg4Container_load list = Inr c"
proof -
  have ids [simp]: "(+) (0::nat) = (\<lambda>k. k)" by auto
  from assms have "list \<noteq> []" by auto
  with assms show ?thesis
    unfolding Mpeg4Container_load_def
    by (auto simp: Let_def identify_keeps identify_moov identify_mdat new_Mpeg4Container_def
        option.map_ident split: option.splits)
qed

lemma load_fails_moov:
  assumes "last_tagged TAG_MOOV list = None"
  shows "Mpeg4Container_load list = Inl FailedToLoad \<or> Mpeg4Container_load list = Inl NoMoovBox"
  using assms unfolding Mpeg4Container_load_def
  by (simp add: Let_def identify_moov new_Mpeg4Container_def)

lemma load_fails_mdat:
  assumes "first_tagged TAG_MDAT list = None"
  shows "isl (Mpeg4Container_load list)"
proof -
  have ids [simp]: "(+) (0::nat) = (\<lambda>k. k)" by auto
  show ?thesis
    using assms unfolding Mpeg4Container_load_def
    by (simp add: Let_def identify_mdat new_Mpeg4Container_def option.map_ident)
qed

lemma tagged_resized [simp]: "tagged tag (b\<lparr>m_iContentSize := x\<rparr>) = tagged tag b"
  by (simp add: tagged_def)

lemma new_pos_spec:
  "\<exists>b\<in>set kids. tagged TAG_MDAT b \<Longrightarrow> new_pos kids acc = acc + newMediaDataStart kids"
proof (induction kids arbitrary: acc)
  case Nil
  then show ?case by simp
next
  case (Cons k kids)
  show ?case
  proof (cases "tagged TAG_MDAT k")
    case True
    then show ?thesis by (simp add: newMediaDataStart_def tagged_def)
  next
    case False
    with Cons.prems have "\<exists>b\<in>set kids. tagged TAG_MDAT b" by auto
    from Cons.IH [OF this, of "acc + size_box k"] False
    show ?thesis by (simp add: newMediaDataStart_def tagged_def)
  qed
qed

lemma resize_contents:
  "m_listContents (resize rs this) =
     map (\<lambda>pBox. pBox\<lparr>m_iContentSize := rs pBox\<rparr>) (m_listContents this)"
  "m_iFirstMDatPos (resize rs this) = m_iFirstMDatPos this"
  by (simp_all add: resize_def Let_def)

lemma resize_same_sizes:
  assumes "\<forall>x\<in>set (m_listContents this). rs x = m_iContentSize x"
  shows "m_listContents (resize rs this) = m_listContents this"
proof -
  have "map (\<lambda>pBox. pBox\<lparr>m_iContentSize := rs pBox\<rparr>) (m_listContents this)
        = map (\<lambda>pBox. pBox) (m_listContents this)"
    using assms by (intro map_cong) auto
  then show ?thesis by (simp add: resize_contents)
qed

lemma start_after_insert:
  assumes "\<forall>x\<in>set (pre @ mid). \<not> tagged TAG_MDAT x" and "tagged TAG_MDAT m"
    and "\<not> tagged TAG_MDAT b"
  shows "newMediaDataStart (pre @ b # mid @ m # rest)
         = sum_list (map size_box (pre @ mid)) + size_box b + m_iHeaderSize m"
    and "newMediaDataStart (pre @ mid @ m # rest)
         = sum_list (map size_box (pre @ mid)) + m_iHeaderSize m"
    and "first_tagged TAG_MDAT (pre @ mid @ m # rest) = Some (length (pre @ mid))"
proof -
  let ?P = "\<lambda>b. \<not> tagged TAG_MDAT b"
  have all: "\<forall>x\<in>set (pre @ b # mid). ?P x" "\<forall>x\<in>set (pre @ mid). ?P x"
    using assms by auto
  have tw: "takeWhile ?P (xs @ m # rest) = xs" "dropWhile ?P (xs @ m # rest) = m # rest"
    if "\<forall>x\<in>set xs. ?P x" for xs
    using that assms(2) by (simp_all add: takeWhile_append2 dropWhile_append2)
  have "newMediaDataStart ((pre @ b # mid) @ m # rest)
        = sum_list (map size_box (pre @ b # mid)) + m_iHeaderSize m"
    unfolding newMediaDataStart_def using tw [OF all(1)] by simp
  then show "newMediaDataStart (pre @ b # mid @ m # rest)
         = sum_list (map size_box (pre @ mid)) + size_box b + m_iHeaderSize m"
    by simp
  have "newMediaDataStart ((pre @ mid) @ m # rest)
        = sum_list (map size_box (pre @ mid)) + m_iHeaderSize m"
    unfolding newMediaDataStart_def using tw [OF all(2)] by simp
  then show "newMediaDataStart (pre @ mid @ m # rest)
         = sum_list (map size_box (pre @ mid)) + m_iHeaderSize m"
    by simp
  have ft: "first_tagged TAG_MDAT (xs @ m # rest) = Some (length xs)"
    if "\<forall>x\<in>set xs. ?P x" for xs
    using that assms(2) by (induction xs) simp_all
  from ft [OF all(2)] show "first_tagged TAG_MDAT (pre @ mid @ m # rest) = Some (length (pre @ mid))"
    by simp
qed

lemma save_calls:
  "snd (Mpeg4Container_save rs this)
   = map (\<lambda>pBox. (pBox, sint (iDelta_of (resize rs this)))) (m_listContents (resize rs this))"
  by (simp add: Mpeg4Container_save_def Let_def)

lemma iDelta_spec:
  assumes "\<exists>b\<in>set (m_listContents this). tagged TAG_MDAT b"
  shows "iDelta_of (resize rs this)
         = newMediaDataStart (m_listContents (resize rs this)) - m_iFirstMDatPos this"
proof -
  have "\<exists>b\<in>set (m_listContents (resize rs this)). tagged TAG_MDAT b"
    using assms by (auto simp: resize_contents)
  from new_pos_spec [OF this, of 0] show ?thesis
    by (simp add: iDelta_of_def resize_contents)
qed

lemma iDelta_after_insert:
  assumes load: "Mpeg4Container_load (pre @ mid @ m # rest) = Inr this0"
    and pre: "\<forall>x\<in>set (pre @ mid). \<not> tagged TAG_MDAT x" and m: "tagged TAG_MDAT m"
    and b: "\<not> tagged TAG_MDAT b"
    and layout: "m_iPosition m = sum_list (map size_box (pre @ mid))"
    and same: "\<forall>x\<in>set (pre @ b # mid @ m # rest). rs x = m_iContentSize x"
  shows "iDelta_of (resize rs (this0\<lparr>m_listContents := pre @ b # mid @ m # rest\<rparr>)) = size_box b"
    and "m_listContents (resize rs (this0\<lparr>m_listContents := pre @ b # mid @ m # rest\<rparr>))
         = pre @ b # mid @ m # rest"
proof -
  let ?cnt = "this0\<lparr>m_listContents := pre @ b # mid @ m # rest\<rparr>"
  from same have kids: "m_listContents (resize rs ?cnt) = pre @ b # mid @ m # rest"
    using resize_same_sizes [of ?cnt rs] by simp
  then show "m_listContents (resize rs ?cnt) = pre @ b # mid @ m # rest" .
  from load_result(6) [OF load] start_after_insert(3) [OF pre m b]
  have old: "m_iFirstMDatPos this0 = m_iPosition m + m_iHeaderSize m"
    by (simp add: nth_append)
  have "\<exists>x\<in>set (m_listContents ?cnt). tagged TAG_MDAT x" using m by auto
  from iDelta_spec [OF this, of rs]
  have "iDelta_of (resize rs ?cnt) = newMediaDataStart (pre @ b # mid @ m # rest) - m_iFirstMDatPos this0"
    by (simp add: kids)
  also have "\<dots> = size_box b"
    using start_after_insert(1) [OF pre m b] by (simp add: old layout)
  finally show "iDelta_of (resize rs ?cnt) = size_box b" .
qed

text \<open>
  C2, as amended: after a successful load the child list is the parsed list; the
  media-data reference is the first child tagged mdat and \<open>m_iFirstMDatPos\<close> is
  that child's position plus its header size; the movie, free-space and file-type
  references are the last child tagged moov, free and ftyp (none for free and ftyp
  when no child bears the tag).
\<close>

theorem load_tracks_first_mdat:
  "Mpeg4Container_load list = Inr c \<Longrightarrow>
     m_listContents c = list
     \<and> m_pFirstMDatBox c = first_tagged TAG_MDAT list
     \<and> m_pMoovBox c = last_tagged TAG_MOOV list
     \<and> m_pFreeBox c = last_tagged TAG_FREE list
     \<and> m_pFTYPBox c = last_tagged TAG_FTYP list
     \<and> (\<exists>k. first_tagged TAG_MDAT list = Some k
              \<and> m_iFirstMDatPos c = m_iPosition (list ! k) + m_iHeaderSize (list ! k))"
  using load_result [of list c] by simp

lemma ex_load6:
  "Mpeg4Container_load [ex_ftyp, ex_moov, ex_mdat, ex_moov2, ex_mdat2, ex_free]
   = Inr \<lparr> m_listContents = [ex_ftyp, ex_moov, ex_mdat, ex_moov2, ex_mdat2, ex_free],
           m_iContentSize_c = 216,
           m_pMoovBox = Some 3, m_pFreeBox = Some 5, m_pFTYPBox = Some 0,
           m_pFirstMDatBox = Some 2, m_iFirstMDatPos = 72 \<rparr>"
  by (simp add: Mpeg4Container_load_def new_Mpeg4Container_def memcmp_eq_def tag_defs Let_def
      size_box_def)

theorem load_tracks_first_mdat_witness:
  "first_tagged TAG_MDAT [ex_ftyp, ex_moov, ex_mdat, ex_moov2, ex_mdat2, ex_free] = Some 2
   \<and> last_tagged TAG_MOOV [ex_ftyp, ex_moov, ex_mdat, ex_moov2, ex_mdat2, ex_free] = Some 3
   \<and> last_tagged TAG_FREE [ex_ftyp, ex_moov, ex_mdat, ex_moov2, ex_mdat2, ex_free] = Some 5
   \<and> last_tagged TAG_FTYP [ex_ftyp, ex_moov, ex_mdat, ex_moov2, ex_mdat2, ex_free] = Some 0"
  using load_tracks_first_mdat [OF ex_load6] by simp

text \<open>
  C2 as stated fails: of two children tagged moov, at indices 1 and 3, the load
  references the one at index 3.
\<close>

theorem load_moov_not_first_counterexample:
  "tagged TAG_MOOV ([ex_ftyp, ex_moov, ex_mdat, ex_moov2] ! 1)
   \<and> Mpeg4Container_load [ex_ftyp, ex_moov, ex_mdat, ex_moov2]
     = Inr \<lparr> m_listContents = [ex_ftyp, ex_moov, ex_mdat, ex_moov2],
             m_iContentSize_c = 184,
             m_pMoovBox = Some 3, m_pFreeBox = None, m_pFTYPBox = Some 0,
             m_pFirstMDatBox = Some 2, m_iFirstMDatPos = 72 \<rparr>"
  by (simp add: Mpeg4Container_load_def new_Mpeg4Container_def memcmp_eq_def tag_defs Let_def
      size_box_def tagged_def)

text \<open>
  C5: a list without a child tagged moov, or without a child tagged mdat, does not
  load. A list with a moov, an mdat, exactly one ftyp (at index \<open>kf\<close>) and exactly
  one free (at index \<open>kr\<close>) loads; the four references are set, the movie and
  media-data references to children bearing their tags, the file-type and free-space
  references to the one child there is.
\<close>

theorem load_needs_moov_and_mdat:
  "((\<forall>b\<in>set list. \<not> tagged TAG_MOOV b) \<or> (\<forall>b\<in>set list. \<not> tagged TAG_MDAT b) \<longrightarrow>
      isl (Mpeg4Container_load list))
   \<and> ((\<exists>b\<in>set list. tagged TAG_MOOV b) \<and> (\<exists>b\<in>set list. tagged TAG_MDAT b)
        \<and> kf < length list \<and> tagged TAG_FTYP (list ! kf)
        \<and> (\<forall>n<length list. tagged TAG_FTYP (list ! n) \<longrightarrow> n = kf)
        \<and> kr < length list \<and> tagged TAG_FREE (list ! kr)
        \<and> (\<forall>n<length list. tagged TAG_FREE (list ! n) \<longrightarrow> n = kr) \<longrightarrow>
      (\<exists>c i j. Mpeg4Container_load list = Inr c \<and> m_listContents c = list
          \<and> m_pMoovBox c = Some i \<and> i < length list \<and> tagged TAG_MOOV (list ! i)
          \<and> m_pFirstMDatBox c = Some j \<and> j < length list \<and> tagged TAG_MDAT (list ! j)
          \<and> m_pFTYPBox c = Some kf \<and> m_pFreeBox c = Some kr))"
proof (intro conjI impI)
  assume "(\<forall>b\<in>set list. \<not> tagged TAG_MOOV b) \<or> (\<forall>b\<in>set list. \<not> tagged TAG_MDAT b)"
  then show "isl (Mpeg4Container_load list)"
  proof
    assume "\<forall>b\<in>set list. \<not> tagged TAG_MOOV b"
    then have "last_tagged TAG_MOOV list = None" by (simp add: last_tagged_None_iff)
    from load_fails_moov [OF this] show ?thesis by auto
  next
    assume "\<forall>b\<in>set list. \<not> tagged TAG_MDAT b"
    then have "first_tagged TAG_MDAT list = None" by (simp add: first_tagged_None_iff)
    then show ?thesis by (rule load_fails_mdat)
  qed
next
  assume h: "(\<exists>b\<in>set list. tagged TAG_MOOV b) \<and> (\<exists>b\<in>set list. tagged TAG_MDAT b)
        \<and> kf < length list \<and> tagged TAG_FTYP (list ! kf)
        \<and> (\<forall>n<length list. tagged TAG_FTYP (list ! n) \<longrightarrow> n = kf)
        \<and> kr < length list \<and> tagged TAG_FREE (list ! kr)
        \<and> (\<forall>n<length list. tagged TAG_FREE (list ! n) \<longrightarrow> n = kr)"
  then have "\<exists>b\<in>set list. tagged TAG_MOOV b" "\<exists>b\<in>set list. tagged TAG_MDAT b"
    by blast+
  then have "last_tagged TAG_MOOV list \<noteq> None" "first_tagged TAG_MDAT list \<noteq> None"
    using last_tagged_None_iff [of TAG_MOOV list] first_tagged_None_iff [of TAG_MDAT list]
    by blast+
  then obtain i j where i: "last_tagged TAG_MOOV list = Some i"
    and j: "first_tagged TAG_MDAT list = Some j" by auto
  from load_succeeds [of list] i j obtain c where c: "Mpeg4Container_load list = Inr c"
    by auto
  have f: "last_tagged TAG_FTYP list = Some kf"
    unfolding last_tagged_Some_iff using h by auto
  have r: "last_tagged TAG_FREE list = Some kr"
    unfolding last_tagged_Some_iff using h by auto
  from i have i': "i < length list" "tagged TAG_MOOV (list ! i)"
    by (simp_all add: last_tagged_Some_iff)
  from j have j': "j < length list" "tagged TAG_MDAT (list ! j)"
    by (simp_all add: first_tagged_Some_iff)
  from load_result(1-5) [OF c] i j f r i' j' c
  show "\<exists>c i j. Mpeg4Container_load list = Inr c \<and> m_listContents c = list
          \<and> m_pMoovBox c = Some i \<and> i < length list \<and> tagged TAG_MOOV (list ! i)
          \<and> m_pFirstMDatBox c = Some j \<and> j < length list \<and> tagged TAG_MDAT (list ! j)
          \<and> m_pFTYPBox c = Some kf \<and> m_pFreeBox c = Some kr"
    by auto
qed

theorem load_needs_moov_and_mdat_witness:
  "isl (Mpeg4Container_load [ex_ftyp, ex_mdat, ex_free])
   \<and> isl (Mpeg4Container_load [ex_ftyp, ex_moov, ex_free])
   \<and> (\<exists>c i j. Mpeg4Container_load [ex_ftyp, ex_moov, ex_mdat, ex_free] = Inr c
          \<and> m_pMoovBox c = Some i \<and> m_pFirstMDatBox c = Some j
          \<and> m_pFTYPBox c = Some 0 \<and> m_pFreeBox c = Some 3)"
proof -
  have 1: "(\<forall>b\<in>set [ex_ftyp, ex_mdat, ex_free]. \<not> tagged TAG_MOOV b)
           \<or> (\<forall>b\<in>set [ex_ftyp, ex_mdat, ex_free]. \<not> tagged TAG_MDAT b)"
    by (simp add: tagged_def memcmp_eq_def tag_defs)
  have 2: "(\<forall>b\<in>set [ex_ftyp, ex_moov, ex_free]. \<not> tagged TAG_MOOV b)
           \<or> (\<forall>b\<in>set [ex_ftyp, ex_moov, ex_free]. \<not> tagged TAG_MDAT b)"
    by (simp add: tagged_def memcmp_eq_def tag_defs)
  let ?l = "[ex_ftyp, ex_moov, ex_mdat, ex_free]"
  have 3: "(\<exists>b\<in>set ?l. tagged TAG_MOOV b) \<and> (\<exists>b\<in>set ?l. tagged TAG_MDAT b)
        \<and> 0 < length ?l \<and> tagged TAG_FTYP (?l ! 0)
        \<and> (\<forall>n<length ?l. tagged TAG_FTYP (?l ! n) \<longrightarrow> n = 0)
        \<and> 3 < length ?l \<and> tagged TAG_FREE (?l ! 3)
        \<and> (\<forall>n<length ?l. tagged TAG_FREE (?l ! n) \<longrightarrow> n = 3)"
    by (simp add: tagged_def memcmp_eq_def tag_defs All_less_Suc)
  from load_needs_moov_and_mdat [THEN conjunct1, THEN mp, OF 1]
    load_needs_moov_and_mdat [THEN conjunct1, THEN mp, OF 2]
    load_needs_moov_and_mdat [THEN conjunct2, THEN mp, OF 3]
  show ?thesis by blast
qed

section \<open>Mpeg4Container: merge\<close>

text \<open>
  C9: \<open>merge\<close> never returns: it ends the process, with the container as it was
  and one more line on \<open>std::cerr\<close>.
\<close>

theorem merge_exits:
  "merge this pElement cerr = Exits 0 (this, cerr @ ''Cannot merge mpeg4 files'' @ [CHR 0x0A])
   \<and> (\<forall>s. merge this pElement cerr \<noteq> Returns s)"
  by (simp add: merge_def)

section \<open>Mpeg4Container: save\<close>

text \<open>
  C1: \<open>save\<close> forwards to every top-level child, in list order, the delta
  \<open>newMediaDataStart - m_iFirstMDatPos\<close>, where the new start is the sum of the
  sizes of the children before the first child tagged mdat plus that child's header
  size. When a container was loaded from a file in which the first mdat box starts
  where the boxes before it end, one box is then inserted before the first mdat, and
  \<open>resize\<close> changes no size, the delta is the size of the inserted box.
\<close>

theorem save_delta:
  "((\<exists>x\<in>set (m_listContents this). tagged TAG_MDAT x) \<longrightarrow>
      snd (Mpeg4Container_save rs this)
      = map (\<lambda>pBox. (pBox, sint (newMediaDataStart (m_listContents (resize rs this))
                                 - m_iFirstMDatPos this)))
            (m_listContents (resize rs this)))
   \<and> (Mpeg4Container_load (pre @ mid @ m # rest) = Inr this0
        \<and> (\<forall>x\<in>set (pre @ mid). \<not> tagged TAG_MDAT x) \<and> tagged TAG_MDAT m
        \<and> \<not> tagged TAG_MDAT b
        \<and> m_iPosition m = sum_list (map size_box (pre @ mid))
        \<and> (\<forall>x\<in>set (pre @ b # mid @ m # rest). rs x = m_iContentSize x) \<longrightarrow>
      iDelta_of (resize rs (this0\<lparr>m_listContents := pre @ b # mid @ m # rest\<rparr>)) = size_box b
      \<and> snd (Mpeg4Container_save rs (this0\<lparr>m_listContents := pre @ b # mid @ m # rest\<rparr>))
        = map (\<lambda>pBox. (pBox, sint (size_box b))) (pre @ b # mid @ m # rest))"
proof (intro conjI impI)
  assume "\<exists>x\<in>set (m_listContents this). tagged TAG_MDAT x"
  from iDelta_spec [OF this, of rs]
  show "snd (Mpeg4Container_save rs this)
      = map (\<lambda>pBox. (pBox, sint (newMediaDataStart (m_listContents (resize rs this))
                                 - m_iFirstMDatPos this)))
            (m_listContents (resize rs this))"
    by (simp add: save_calls)
next
  assume h: "Mpeg4Container_load (pre @ mid @ m # rest) = Inr this0
        \<and> (\<forall>x\<in>set (pre @ mid). \<not> tagged TAG_MDAT x) \<and> tagged TAG_MDAT m
        \<and> \<not> tagged TAG_MDAT b
        \<and> m_iPosition m = sum_list (map size_box (pre @ mid))
        \<and> (\<forall>x\<in>set (pre @ b # mid @ m # rest). rs x = m_iContentSize x)"
  then have d: "iDelta_of (resize rs (this0\<lparr>m_listContents := pre @ b # mid @ m # rest\<rparr>)) = size_box b"
    and k: "m_listContents (resize rs (this0\<lparr>m_listContents := pre @ b # mid @ m # rest\<rparr>))
         = pre @ b # mid @ m # rest"
    using iDelta_after_insert [of pre mid m rest this0 b rs] by blast+
  show "iDelta_of (resize rs (this0\<lparr>m_listContents := pre @ b # mid @ m # rest\<rparr>)) = size_box b"
    by (rule d)
  show "snd (Mpeg4Container_save rs (this0\<lparr>m_listContents := pre @ b # mid @ m # rest\<rparr>))
        = map (\<lambda>pBox. (pBox, sint (size_box b))) (pre @ b # mid @ m # rest)"
    by (simp only: save_calls d k)
qed

lemma ex_load:
  "Mpeg4Container_load [ex_ftyp, ex_moov, ex_mdat]
   = Inr \<lparr> m_listContents = [ex_ftyp, ex_moov, ex_mdat], m_iContentSize_c = 172,
           m_pMoovBox = Some 1, m_pFreeBox = None, m_pFTYPBox = Some 0,
           m_pFirstMDatBox = Some 2, m_iFirstMDatPos = 72 \<rparr>"
  by (simp add: Mpeg4Container_load_def new_Mpeg4Container_def memcmp_eq_def tag_defs Let_def
      size_box_def)

theorem save_delta_witness:
  "snd (Mpeg4Container_save m_iContentSize
         \<lparr> m_listContents = [ex_ftyp, ex_uuid, ex_moov, ex_mdat], m_iContentSize_c = 172,
           m_pMoovBox = Some 1, m_pFreeBox = None, m_pFTYPBox = Some 0,
           m_pFirstMDatBox = Some 2, m_iFirstMDatPos = 72 \<rparr>)
   = [(ex_ftyp, 20), (ex_uuid, 20), (ex_moov, 20), (ex_mdat, 20)]"
proof -
  have "Mpeg4Container_load ([ex_ftyp] @ [ex_moov] @ ex_mdat # []) = Inr \<lparr> m_listContents = [ex_ftyp, ex_moov, ex_mdat], m_iContentSize_c = 172,
           m_pMoovBox = Some 1, m_pFreeBox = None, m_pFTYPBox = Some 0,
           m_pFirstMDatBox = Some 2, m_iFirstMDatPos = 72 \<rparr>
        \<and> (\<forall>x\<in>set ([ex_ftyp] @ [ex_moov]). \<not> tagged TAG_MDAT x) \<and> tagged TAG_MDAT ex_mdat
        \<and> \<not> tagged TAG_MDAT ex_uuid
        \<and> m_iPosition ex_mdat = sum_list (map size_box ([ex_ftyp] @ [ex_moov]))
        \<and> (\<forall>x\<in>set ([ex_ftyp] @ ex_uuid # [ex_moov] @ ex_mdat # []). m_iContentSize x = m_iContentSize x)"
    using ex_load by (simp add: tagged_def memcmp_eq_def tag_defs size_box_def)
  from save_delta [THEN conjunct2, THEN mp, OF this]
  show ?thesis by (simp add: size_box_def)
qed

lemma sint_sub_words:
  "sint (a - b :: 32 word) = signed_take_bit 31 (uint a - uint b)"
proof -
  have "sint (a - b) = signed_take_bit 31 (uint (a - b))"
    by (simp add: sint_uint)
  also have "uint (a - b) = take_bit 32 (uint a - uint b)"
    by (simp add: uint_word_ariths take_bit_eq_mod)
  also have "signed_take_bit 31 (take_bit 32 (uint a - uint b))
             = signed_take_bit 31 (uint a - uint b)"
    by (simp add: signed_take_bit_take_bit)
  finally show ?thesis .
qed

text \<open>
  C10: the delta is an unsigned 32-bit difference: its value is the difference of the
  new start and the load-time start modulo \<open>2 ^ 32\<close>. When the new start is
  smaller, that is \<open>2 ^ 32\<close> minus the shrinkage, a positive number; every child
  receives these 32 bits read as a signed number, the difference cut to 32 signed bits.
\<close>

theorem save_delta_unsigned:
  "snd (Mpeg4Container_save rs this)
   = map (\<lambda>pBox. (pBox, sint (iDelta_of (resize rs this)))) (m_listContents (resize rs this))
   \<and> uint (iDelta_of (resize rs this))
     = (uint (new_pos (m_listContents (resize rs this)) 0) - uint (m_iFirstMDatPos this)) mod 2 ^ 32
   \<and> sint (iDelta_of (resize rs this))
     = signed_take_bit 31
         (uint (new_pos (m_listContents (resize rs this)) 0) - uint (m_iFirstMDatPos this))
   \<and> (new_pos (m_listContents (resize rs this)) 0 < m_iFirstMDatPos this \<longrightarrow>
        uint (iDelta_of (resize rs this))
        = 2 ^ 32 - (uint (m_iFirstMDatPos this) - uint (new_pos (m_listContents (resize rs this)) 0))
        \<and> 0 < uint (iDelta_of (resize rs this)))"
proof (intro conjI impI)
  let ?new = "new_pos (m_listContents (resize rs this)) 0"
  let ?old = "m_iFirstMDatPos this"
  show "snd (Mpeg4Container_save rs this)
   = map (\<lambda>pBox. (pBox, sint (iDelta_of (resize rs this)))) (m_listContents (resize rs this))"
    by (rule save_calls)
  have d: "iDelta_of (resize rs this) = ?new - ?old"
    by (simp add: iDelta_of_def resize_contents)
  show m: "uint (iDelta_of (resize rs this)) = (uint ?new - uint ?old) mod 2 ^ 32"
    unfolding d by (simp add: uint_word_ariths)
  show "sint (iDelta_of (resize rs this)) = signed_take_bit 31 (uint ?new - uint ?old)"
    unfolding d by (rule sint_sub_words)
  assume lt: "?new < ?old"
  then have lt': "uint ?new < uint ?old" by (simp add: word_less_def)
  have o: "uint ?old < 4294967296" using uint_lt2p [of ?old] by simp
  have r: "0 \<le> uint ?new - uint ?old + 4294967296"
    "uint ?new - uint ?old + 4294967296 < 4294967296"
    using lt' o uint_nonnegative [of ?new] by linarith+
  have "(uint ?new - uint ?old) mod 4294967296 = (uint ?new - uint ?old + 4294967296) mod 4294967296"
    by simp
  also have "\<dots> = uint ?new - uint ?old + 4294967296"
    using r by (rule mod_pos_pos_trivial)
  finally have "(uint ?new - uint ?old) mod 2 ^ 32 = uint ?new - uint ?old + 2 ^ 32"
    by simp
  moreover have "0 < uint ?new - uint ?old + (4294967296 :: int)"
    using lt' o uint_nonnegative [of ?new] by linarith
  then have "0 < uint ?new - uint ?old + (2 ^ 32 :: int)" by simp
  ultimately have "(uint ?new - uint ?old) mod 2 ^ 32 = uint ?new - uint ?old + 2 ^ 32"
    "0 < uint ?new - uint ?old + (2 ^ 32 :: int)" by blast+
  with m show "uint (iDelta_of (resize rs this)) = 2 ^ 32 - (uint ?old - uint ?new)"
    and "0 < uint (iDelta_of (resize rs this))" by simp_all
qed

theorem save_delta_unsigned_witness:
  "new_pos [ex_ftyp, ex_mdat] 0 < (72 :: 32 word)
   \<and> uint (iDelta_of (resize m_iContentSize
         \<lparr> m_listContents = [ex_ftyp, ex_mdat], m_iContentSize_c = 172,
           m_pMoovBox = Some 1, m_pFreeBox = None, m_pFTYPBox = Some 0,
           m_pFirstMDatBox = Some 2, m_iFirstMDatPos = 72 \<rparr>)) = 4294967256
   \<and> snd (Mpeg4Container_save m_iContentSize
         \<lparr> m_listContents = [ex_ftyp, ex_mdat], m_iContentSize_c = 172,
           m_pMoovBox = Some 1, m_pFreeBox = None, m_pFTYPBox = Some 0,
           m_pFirstMDatBox = Some 2, m_iFirstMDatPos = 72 \<rparr>)
     = [(ex_ftyp, - 40), (ex_mdat, - 40)]"
proof -
  have k: "m_listContents (resize m_iContentSize
         \<lparr> m_listContents = [ex_ftyp, ex_mdat], m_iContentSize_c = 172,
           m_pMoovBox = Some 1, m_pFreeBox = None, m_pFTYPBox = Some 0,
           m_pFirstMDatBox = Some 2, m_iFirstMDatPos = 72 \<rparr>) = [ex_ftyp, ex_mdat]"
    by (simp add: resize_def)
  have n: "new_pos [ex_ftyp, ex_mdat] 0 = 32"
    by (simp add: memcmp_eq_def tag_defs size_box_def)
  have lt: "(32 :: 32 word) < 72" by simp
  from save_delta_unsigned [of m_iContentSize "\<lparr> m_listContents = [ex_ftyp, ex_mdat], m_iContentSize_c = 172,
           m_pMoovBox = Some 1, m_pFreeBox = None, m_pFTYPBox = Some 0,
           m_pFirstMDatBox = Some 2, m_iFirstMDatPos = 72 \<rparr>"]
  show ?thesis
    unfolding k n using lt
    by (simp add: iDelta_of_def resize_def memcmp_eq_def tag_defs size_box_def)
qed

section \<open>Binary I/O: what is written is read back\<close>

lemma be32_of_bytes:
  "be32 (ucast (drop_bit 24 v)) (ucast (drop_bit 16 v)) (ucast (drop_bit 8 v)) (ucast v) = v"
  unfolding be32_def
proof (rule bit_word_eqI)
  fix n assume n: "n < LENGTH(32)"
  consider "n < 8" | "8 \<le> n" "n < 16" | "16 \<le> n" "n < 24" | "24 \<le> n" by linarith
  then show "bit (push_bit 24 (ucast (ucast (drop_bit 24 v :: 32 word) :: 8 word)) OR
          push_bit 16 (ucast (ucast (drop_bit 16 v) :: 8 word)) OR
          push_bit 8 (ucast (ucast (drop_bit 8 v):: 8 word)) OR ucast (ucast v :: 8 word) :: 32 word) n = bit v n"
    using n by cases (auto simp add: bit_simps)
qed

lemma length_writeUint32 [simp]: "length (writeUint32 v) = 4"
  by (simp add: writeUint32_def)

lemma length_writeUint64 [simp]: "length (writeUint64 v) = 8"
  by (simp add: writeUint64_def)

lemma drop_prefix:
  assumes "drop p fs = xs @ rest"
  shows "drop (p + length xs) fs = rest"
    and "\<And>i. i < length xs \<Longrightarrow> byte_at junk fs (p + i) = xs ! i"
proof -
  have len: "length (drop p fs) = length xs + length rest" using assms by simp
  have "drop (p + length xs) fs = drop (length xs) (drop p fs)"
    by (simp add: add.commute)
  then show "drop (p + length xs) fs = rest" using assms by simp
  fix i assume i: "i < length xs"
  with len have le: "p + i < length fs" by (cases "p \<le> length fs") auto
  then have "fs ! (p + i) = drop p fs ! i" by simp
  with i le show "byte_at junk fs (p + i) = xs ! i"
    by (simp add: assms nth_append byte_at_def)
qed

lemma readUint32_drop:
  assumes "drop p fs = writeUint32 v @ rest"
  shows "readUint32 junk fs p = (v, p + 4)" and "drop (p + 4) fs = rest"
proof -
  from drop_prefix [OF assms] have d: "drop (p + 4) fs = rest"
    and nth: "\<And>i. i < 4 \<Longrightarrow> byte_at junk fs (p + i) = writeUint32 v ! i"
    by simp_all
  from nth [of 0] nth [of 1] nth [of 2] nth [of 3]
  have "byte_at junk fs p = ucast (drop_bit 24 v)"
    "byte_at junk fs (p + 1) = ucast (drop_bit 16 v)"
    "byte_at junk fs (p + 2) = ucast (drop_bit 8 v)" "byte_at junk fs (p + 3) = ucast v"
    by (simp_all add: writeUint32_def)
  then show "readUint32 junk fs p = (v, p + 4)"
    unfolding readUint32_def by (simp only: be32_of_bytes)
  show "drop (p + 4) fs = rest" by (rule d)
qed

lemma readUint8_drop:
  assumes "drop p fs = writeUint8 v @ rest"
  shows "readUint8 junk fs p = (v, p + 1)" and "drop (p + 1) fs = rest"
proof -
  from drop_prefix [OF assms] have d: "drop (p + 1) fs = rest"
    and nth: "\<And>i. i < 1 \<Longrightarrow> byte_at junk fs (p + i) = writeUint8 v ! i"
    by (simp_all add: writeUint8_def)
  from nth [of 0] show "readUint8 junk fs p = (v, p + 1)"
    by (simp add: readUint8_def writeUint8_def)
  show "drop (p + 1) fs = rest" by (rule d)
qed

lemma read_bytes_drop:
  assumes "drop p fs = xs @ rest" and "length xs = n"
  shows "read_bytes junk fs p n = (xs, p + n)" and "drop (p + n) fs = rest"
proof -
  from drop_prefix [OF assms(1)] assms(2)
  have d: "drop (p + n) fs = rest"
    and nth: "\<And>i. i < n \<Longrightarrow> byte_at junk fs (p + i) = xs ! i" by simp_all
  have "map (byte_at junk fs) [p..<p + n] = xs"
    by (rule nth_equalityI) (simp_all add: assms(2) nth)
  then show "read_bytes junk fs p n = (xs, p + n)" by (simp add: read_bytes_def)
  show "drop (p + n) fs = rest" by (rule d)
qed

lemma ucast_64_32:
  "ucast (push_bit 32 (ucast (ucast (drop_bit 32 v :: 64 word) :: 32 word) :: 64 word)
          OR ucast (ucast v :: 32 word) :: 64 word) = (ucast v :: 32 word)"
  by (rule bit_word_eqI) (auto simp add: bit_simps)

lemma readUint64_drop:
  assumes "drop p fs = writeUint64 v @ rest"
  shows "\<exists>w. readUint64 junk fs p = (w, p + 8) \<and> (ucast w :: 32 word) = ucast v"
    and "drop (p + 8) fs = rest"
proof -
  from drop_prefix [OF assms] have d: "drop (p + 8) fs = rest"
    and nth: "\<And>i. i < 8 \<Longrightarrow> byte_at junk fs (p + i) = writeUint64 v ! i"
    by simp_all
  have hi: "be32 (byte_at junk fs p) (byte_at junk fs (p + 1))
                 (byte_at junk fs (p + 2)) (byte_at junk fs (p + 3))
            = ucast (drop_bit 32 v)"
    using nth [of 0] nth [of 1] nth [of 2] nth [of 3]
    by (simp add: writeUint64_def writeUint32_def be32_of_bytes)
  have lo: "be32 (byte_at junk fs (p + 4)) (byte_at junk fs (p + 5))
                 (byte_at junk fs (p + 6)) (byte_at junk fs (p + 7)) = ucast v"
    using nth [of 4] nth [of 5] nth [of 6] nth [of 7]
    by (simp add: writeUint64_def writeUint32_def be32_of_bytes)
  have "readUint64 junk fs p
        = (push_bit 32 (ucast (ucast (drop_bit 32 v) :: 32 word))
           OR ucast (ucast v :: 32 word), p + 8)"
    unfolding readUint64_def hi lo by (rule refl)
  then show "\<exists>w. readUint64 junk fs p = (w, p + 8) \<and> (ucast w :: 32 word) = ucast v"
    using ucast_64_32 [of v] by simp
  show "drop (p + 8) fs = rest" by (rule d)
qed

lemma read_map_drop:
  "drop p fs = concat (map writeUint32 xs) @ rest \<Longrightarrow>
   read_map junk fs p (length xs) cmap = (cmap @ xs, p + 4 * length xs)
   \<and> drop (p + 4 * length xs) fs = rest"
proof (induction xs arbitrary: p cmap)
  case Nil
  then show ?case by simp
next
  case (Cons x xs)
  then have a: "drop p fs = writeUint32 x @ (concat (map writeUint32 xs) @ rest)" by simp
  from readUint32_drop [OF a] have r: "readUint32 junk fs p = (x, p + 4)"
    and d: "drop (p + 4) fs = concat (map writeUint32 xs) @ rest" by simp_all
  from Cons.IH [OF d, of "cmap @ [x]"] r show ?case by (simp add: algebra_simps)
qed

lemma save_bytes:
  "SA3DBox_save this fsOut =
     fsOut
     @ (if m_iHeaderSize this = 16
        then writeUint32 1 @ take 4 (m_name this) @ writeUint64 (ucast (size_box this))
        else if m_iHeaderSize this = 8
        then writeUint32 (size_box this) @ take 4 (m_name this) else [])
     @ writeUint8 (m_iVersion this) @ writeUint8 (m_iAmbisonicType this)
     @ writeUint32 (m_iAmbisonicOrder this)
     @ writeUint8 (m_iAmbisonicChannelOrdering this)
     @ writeUint8 (m_iAmbisonicNormalization this)
     @ writeUint32 (m_iNumChannels this)
     @ concat (map writeUint32 (m_ChannelMap this))"
proof -
  have f: "foldl (\<lambda>out v. out @ writeUint32 v) acc xs = acc @ concat (map writeUint32 xs)"
    for acc xs
    by (induction xs arbitrary: acc) simp_all
  show ?thesis by (simp add: SA3DBox_save_def Let_def f)
qed

lemma read_map_length:
  "read_map junk fs p n cmap = (m, q) \<Longrightarrow> length m = length cmap + n"
  by (induction n arbitrary: p cmap) (auto simp: readUint32_def)

section \<open>SA3DBox: load after save\<close>

lemma load_standard:
  assumes fs: "fs = writeUint32 s @ nm @ writeUint8 v @ writeUint8 t @ writeUint32 ord
                   @ writeUint8 co @ writeUint8 cn @ writeUint32 n
                   @ concat (map writeUint32 xs) @ rest"
    and nm: "length nm = 4" and s: "s \<noteq> 1" and n: "unat n = length xs"
  shows "SA3DBox_load junk fs 0 iEnd =
    (if \<not> memcmp_eq nm TAG_SA3D sizeof_deref_TAG_SA3D then Inl NotSA3DBox
     else if s > iEnd then Inl ExceedsBounds
     else Inr (new_SA3DBox
          \<lparr> m_iPosition := 0,
            m_iContentSize := s - 8,
            m_iVersion := v,
            m_iAmbisonicType := t,
            m_iAmbisonicOrder := ord,
            m_iAmbisonicChannelOrdering := co,
            m_iAmbisonicNormalization := cn,
            m_iNumChannels := n,
            m_ChannelMap := xs \<rparr>))"
proof -
  have d0: "drop 0 fs = writeUint32 s @ (nm @ writeUint8 v @ writeUint8 t @ writeUint32 ord
                   @ writeUint8 co @ writeUint8 cn @ writeUint32 n
                   @ concat (map writeUint32 xs) @ rest)"
    by (simp add: fs)
  from readUint32_drop [OF d0] have r1: "readUint32 junk fs 0 = (s, 4)"
    and d1: "drop 4 fs = nm @ (writeUint8 v @ writeUint8 t @ writeUint32 ord
                   @ writeUint8 co @ writeUint8 cn @ writeUint32 n
                   @ concat (map writeUint32 xs) @ rest)" by simp_all
  from read_bytes_drop [OF d1 nm] have r2: "read_bytes junk fs 4 4 = (nm, 8)"
    and d2: "drop 8 fs = writeUint8 v @ (writeUint8 t @ writeUint32 ord
                   @ writeUint8 co @ writeUint8 cn @ writeUint32 n
                   @ concat (map writeUint32 xs) @ rest)" by simp_all
  from readUint8_drop [OF d2] have r3: "readUint8 junk fs 8 = (v, 9)"
    and d3: "drop 9 fs = writeUint8 t @ (writeUint32 ord
                   @ writeUint8 co @ writeUint8 cn @ writeUint32 n
                   @ concat (map writeUint32 xs) @ rest)" by simp_all
  from readUint8_drop [OF d3] have r4: "readUint8 junk fs 9 = (t, 10)"
    and d4: "drop 10 fs = writeUint32 ord @ (writeUint8 co @ writeUint8 cn @ writeUint32 n
                   @ concat (map writeUint32 xs) @ rest)" by simp_all
  from readUint32_drop [OF d4] have r5: "readUint32 junk fs 10 = (ord, 14)"
    and d5: "drop 14 fs = writeUint8 co @ (writeUint8 cn @ writeUint32 n
                   @ concat (map writeUint32 xs) @ rest)" by simp_all
  from readUint8_drop [OF d5] have r6: "readUint8 junk fs 14 = (co, 15)"
    and d6: "drop 15 fs = writeUint8 cn @ (writeUint32 n
                   @ concat (map writeUint32 xs) @ rest)" by simp_all
  from readUint8_drop [OF d6] have r7: "readUint8 junk fs 15 = (cn, 16)"
    and d7: "drop 16 fs = writeUint32 n @ (concat (map writeUint32 xs) @ rest)" by simp_all
  from readUint32_drop [OF d7] have r8: "readUint32 junk fs 16 = (n, 20)"
    and d8: "drop 20 fs = concat (map writeUint32 xs) @ rest" by simp_all
  from read_map_drop [OF d8, where cmap = "[]" and junk = junk]
  have r9: "read_map junk fs 20 (unat n) [] = (xs, 20 + 4 * length xs)"
    by (simp add: n)
  show ?thesis
    unfolding SA3DBox_load_def
    by (simp add: rd_def r1 r2 r3 r4 r5 r6 r7 r8 r9 s new_SA3DBox_def)
qed

lemma load_extended:
  assumes fs: "fs = writeUint32 1 @ nm @ writeUint64 (ucast s) @ writeUint8 v @ writeUint8 t
                   @ writeUint32 ord @ writeUint8 co @ writeUint8 cn @ writeUint32 n
                   @ concat (map writeUint32 xs) @ rest"
    and nm: "length nm = 4" and n: "unat n = length xs"
  shows "SA3DBox_load junk fs 0 iEnd =
    (if \<not> memcmp_eq nm TAG_SA3D sizeof_deref_TAG_SA3D then Inl NotSA3DBox
     else if s > iEnd then Inl ExceedsBounds
     else Inr (new_SA3DBox
          \<lparr> m_iPosition := 0,
            m_iContentSize := s - 8,
            m_iVersion := v,
            m_iAmbisonicType := t,
            m_iAmbisonicOrder := ord,
            m_iAmbisonicChannelOrdering := co,
            m_iAmbisonicNormalization := cn,
            m_iNumChannels := n,
            m_ChannelMap := xs \<rparr>))"
proof -
  have d0: "drop 0 fs = writeUint32 1 @ (nm @ writeUint64 (ucast s) @ writeUint8 v
                   @ writeUint8 t @ writeUint32 ord
                   @ writeUint8 co @ writeUint8 cn @ writeUint32 n
                   @ concat (map writeUint32 xs) @ rest)"
    by (simp add: fs)
  from readUint32_drop [OF d0] have r1: "readUint32 junk fs 0 = (1, 4)"
    and d1: "drop 4 fs = nm @ (writeUint64 (ucast s) @ writeUint8 v @ writeUint8 t
                   @ writeUint32 ord
                   @ writeUint8 co @ writeUint8 cn @ writeUint32 n
                   @ concat (map writeUint32 xs) @ rest)" by simp_all
  from read_bytes_drop [OF d1 nm] have r2: "read_bytes junk fs 4 4 = (nm, 8)"
    and d2: "drop 8 fs = writeUint64 (ucast s) @ (writeUint8 v @ writeUint8 t @ writeUint32 ord
                   @ writeUint8 co @ writeUint8 cn @ writeUint32 n
                   @ concat (map writeUint32 xs) @ rest)" by simp_all
  from readUint64_drop [OF d2] obtain w where r2': "readUint64 junk fs 8 = (w, 16)"
    and w: "(ucast w :: 32 word) = ucast (ucast s :: 64 word)"
    and d2': "drop 16 fs = writeUint8 v @ (writeUint8 t @ writeUint32 ord
                   @ writeUint8 co @ writeUint8 cn @ writeUint32 n
                   @ concat (map writeUint32 xs) @ rest)" by auto
  have w': "(ucast w :: 32 word) = s"
    unfolding w by (rule bit_word_eqI) (auto simp add: bit_simps)
  from readUint8_drop [OF d2'] have r3: "readUint8 junk fs 16 = (v, 17)"
    and d3: "drop 17 fs = writeUint8 t @ (writeUint32 ord
                   @ writeUint8 co @ writeUint8 cn @ writeUint32 n
                   @ concat (map writeUint32 xs) @ rest)" by simp_all
  from readUint8_drop [OF d3] have r4: "readUint8 junk fs 17 = (t, 18)"
    and d4: "drop 18 fs = writeUint32 ord @ (writeUint8 co @ writeUint8 cn @ writeUint32 n
                   @ concat (map writeUint32 xs) @ rest)" by simp_all
  from readUint32_drop [OF d4] have r5: "readUint32 junk fs 18 = (ord, 22)"
    and d5: "drop 22 fs = writeUint8 co @ (writeUint8 cn @ writeUint32 n
                   @ concat (map writeUint32 xs) @ rest)" by simp_all
  from readUint8_drop [OF d5] have r6: "readUint8 junk fs 22 = (co, 23)"
    and d6: "drop 23 fs = writeUint8 cn @ (writeUint32 n
                   @ concat (map writeUint32 xs) @ rest)" by simp_all
  from readUint8_drop [OF d6] have r7: "readUint8 junk fs 23 = (cn, 24)"
    and d7: "drop 24 fs = writeUint32 n @ (concat (map writeUint32 xs) @ rest)" by simp_all
  from readUint32_drop [OF d7] have r8: "readUint32 junk fs 24 = (n, 28)"
    and d8: "drop 28 fs = concat (map writeUint32 xs) @ rest" by simp_all
  from read_map_drop [OF d8, where cmap = "[]" and junk = junk]
  have r9: "read_map junk fs 28 (unat n) [] = (xs, 28 + 4 * length xs)"
    by (simp add: n)
  show ?thesis
    unfolding SA3DBox_load_def
    by (simp add: rd_def r1 r2 r2' w' r3 r4 r5 r6 r7 r8 r9 new_SA3DBox_def)
qed

lemma create_loop:
  "fold (\<lambda>i b. b\<lparr>m_ChannelMap := m_ChannelMap b @ [word_of_nat i],
                   m_iContentSize := m_iContentSize b + 4\<rparr>) [0..<k] (b :: SA3DBox)
   = b\<lparr>m_ChannelMap := m_ChannelMap b @ map word_of_nat [0..<k],
        m_iContentSize := m_iContentSize b + 4 * word_of_nat k\<rparr>"
  by (induction k) (simp_all add: algebra_simps)

lemma create_fields:
  "SA3DBox_create n =
    \<lparr> m_name = TAG_SA3D, m_iPosition = 0, m_iHeaderSize = 8, m_iContentSize = 12 + 4 * n,
      m_iVersion = 0, m_iAmbisonicType = 0,
      m_iAmbisonicOrder = double_to_uint32 (sqrt (real_of_int (sint n)) - 1),
      m_iAmbisonicChannelOrdering = 0, m_iAmbisonicNormalization = 0,
      m_iNumChannels = n, m_ChannelMap = map word_of_nat [0..<unat n] \<rparr>"
  by (simp add: SA3DBox_create_def Let_def create_loop new_SA3DBox_def TAG_SA3D_def)

section \<open>SA3DBox: create\<close>

lemma sqrt_squares: "sqrt 9 = 3" "sqrt 16 = 4"
proof -
  have "sqrt 9 = sqrt (3\<^sup>2)" "sqrt 16 = sqrt (4\<^sup>2)" by simp_all
  then show "sqrt 9 = 3" "sqrt 16 = 4" by (simp_all only: real_sqrt_abs)
qed

lemma upt_4: "[0..<4] = [0, 1, 2, 3]"
  by (simp add: upt_rec)

lemma order_of_positive:
  assumes "0 < sint n"
  shows "uint (double_to_uint32 (sqrt (real_of_int (sint n)) - 1))
         = \<lfloor>sqrt (real_of_int (sint (n :: 32 word)))\<rfloor> - 1"
proof -
  define x where "x = sint n"
  define r where "r = sqrt (real_of_int x)"
  from assms have x1: "1 \<le> x" by (simp add: x_def)
  have x2: "x < 2147483648" using sint_lt [of n] by (simp add: x_def)
  from x1 have r1: "1 \<le> r" by (simp add: r_def)
  have "real_of_int x \<le> (real_of_int x)\<^sup>2" using x1 by (simp add: power2_eq_square)
  then have "sqrt (real_of_int x) \<le> sqrt ((real_of_int x)\<^sup>2)" by (rule real_sqrt_le_mono)
  then have r2: "r \<le> real_of_int x" using x1 by (simp add: r_def)
  from r1 have k0: "0 \<le> \<lfloor>r\<rfloor> - 1" by simp
  from r2 have "\<lfloor>r\<rfloor> \<le> x" by (simp add: floor_le_iff)
  with x2 have "\<lfloor>r\<rfloor> - 1 < 4294967296" by linarith
  then have k1: "\<lfloor>r\<rfloor> - 1 < 2 ^ 32" by simp
  have e: "double_to_uint32 (r - 1) = word_of_int (\<lfloor>r\<rfloor> - 1)"
    using r1 by (simp add: double_to_uint32_def)
  have "uint (double_to_uint32 (r - 1)) = take_bit 32 (\<lfloor>r\<rfloor> - 1)"
    unfolding e uint_word_of_int_eq by simp
  also have "\<dots> = \<lfloor>r\<rfloor> - 1"
    using k0 k1 by (simp add: take_bit_int_eq_self)
  finally show ?thesis by (simp add: r_def x_def)
qed

text \<open>
  C8: for a channel count \<open>n > 0\<close> the created box has ambisonic order
  \<open>floor (sqrt n) - 1\<close>; 4, 9 and 16 channels give the orders 1, 2 and 3.
\<close>

theorem create_order:
  "(0 < sint n \<longrightarrow>
      uint (m_iAmbisonicOrder (SA3DBox_create n)) = \<lfloor>sqrt (real_of_int (sint n))\<rfloor> - 1)
   \<and> m_iAmbisonicOrder (SA3DBox_create 4) = 1
   \<and> m_iAmbisonicOrder (SA3DBox_create 9) = 2
   \<and> m_iAmbisonicOrder (SA3DBox_create 16) = 3"
proof (intro conjI impI)
  have o: "m_iAmbisonicOrder (SA3DBox_create k)
           = double_to_uint32 (sqrt (real_of_int (sint k)) - 1)" for k
    by (simp only: create_fields SA3DBox.simps)
  assume "0 < sint n"
  from order_of_positive [OF this]
  show "uint (m_iAmbisonicOrder (SA3DBox_create n)) = \<lfloor>sqrt (real_of_int (sint n))\<rfloor> - 1"
    by (simp only: o)
next
  show "m_iAmbisonicOrder (SA3DBox_create 4) = 1"
    by (simp add: create_fields double_to_uint32_def)
  show "m_iAmbisonicOrder (SA3DBox_create 9) = 2"
    by (simp add: create_fields sqrt_squares double_to_uint32_def)
  show "m_iAmbisonicOrder (SA3DBox_create 16) = 3"
    by (simp add: create_fields sqrt_squares double_to_uint32_def)
qed

theorem create_order_witness:
  "0 < sint (9 :: 32 word) \<and> uint (m_iAmbisonicOrder (SA3DBox_create 9)) = \<lfloor>sqrt 9\<rfloor> - 1"
  using create_order [of 9] by simp

section \<open>SA3DBox: content size\<close>

text \<open>
  C7, as amended: a created box has content size \<open>12 + 4 * channelCount\<close>, in
  unsigned 32-bit arithmetic, and as many channel map entries as its channel count. A
  loaded box, also one loaded from a stream that ends early, has as many channel map
  entries as its channel count too, but its content size is the size that the load
  read at \<open>iPos\<close> minus 8 (for a size other than the escape 1): it is
  \<open>12 + 4 * channelCount\<close> exactly when that size is \<open>20 + 4 * channelCount\<close>.
\<close>

theorem content_size_invariant:
  "(m_iContentSize (SA3DBox_create n) = 12 + 4 * m_iNumChannels (SA3DBox_create n)
    \<and> length (m_ChannelMap (SA3DBox_create n)) = unat (m_iNumChannels (SA3DBox_create n)))
   \<and> (SA3DBox_load junk fs iPos iEnd = Inr b \<longrightarrow> length (m_ChannelMap b) = unat (m_iNumChannels b))
   \<and> (SA3DBox_load junk fs iPos iEnd = Inr b \<and> readUint32 junk fs (unat iPos) = (s, p) \<and> s \<noteq> 1 \<longrightarrow>
        m_iContentSize b = s - 8
        \<and> (m_iContentSize b = 12 + 4 * m_iNumChannels b \<longleftrightarrow> s = 20 + 4 * m_iNumChannels b))"
proof (intro conjI impI)
  show "m_iContentSize (SA3DBox_create n) = 12 + 4 * m_iNumChannels (SA3DBox_create n)"
    and "length (m_ChannelMap (SA3DBox_create n)) = unat (m_iNumChannels (SA3DBox_create n))"
    by (simp_all add: create_fields)
next
  assume "SA3DBox_load junk fs iPos iEnd = Inr b"
  then show "length (m_ChannelMap b) = unat (m_iNumChannels b)"
    unfolding SA3DBox_load_def rd_def
    by (auto split: if_splits prod.splits dest: read_map_length)
next
  assume h: "SA3DBox_load junk fs iPos iEnd = Inr b \<and> readUint32 junk fs (unat iPos) = (s, p) \<and> s \<noteq> 1"
  then show c: "m_iContentSize b = s - 8"
    unfolding SA3DBox_load_def rd_def
    by (auto simp: new_SA3DBox_def split: if_splits prod.splits)
  have "s - 8 = 12 + 4 * m_iNumChannels b \<longleftrightarrow> s = 20 + 4 * m_iNumChannels b"
    by (auto simp: algebra_simps)
  then show "m_iContentSize b = 12 + 4 * m_iNumChannels b \<longleftrightarrow> s = 20 + 4 * m_iNumChannels b"
    by (simp add: c)
qed

lemmas load_eval = SA3DBox_load_def rd_def readUint32_def readUint8_def readUint64_def
  read_bytes_def byte_at_def ex_junk_def be32_def memcmp_eq_def TAG_SA3D_def
  sizeof_deref_TAG_SA3D_def new_SA3DBox_def

theorem content_size_invariant_witness:
  "SA3DBox_load ex_junk [0, 0, 0, 20, 0x53, 0x41, 0x33, 0x44, 0, 0, 0, 0, 0, 0, 0, 0,
                         0, 0, 0, 1] 0 20
     = Inr \<lparr> m_name = TAG_SA3D, m_iPosition = 0, m_iHeaderSize = 8, m_iContentSize = 12,
             m_iVersion = 0, m_iAmbisonicType = 0, m_iAmbisonicOrder = 0,
             m_iAmbisonicChannelOrdering = 0, m_iAmbisonicNormalization = 0,
             m_iNumChannels = 1, m_ChannelMap = [0] \<rparr>
   \<and> readUint32 ex_junk [0, 0, 0, 20, 0x53, 0x41, 0x33, 0x44, 0, 0, 0, 0, 0, 0, 0, 0,
                           0, 0, 0, 1] (unat (0 :: 32 word)) = (20, 4)
   \<and> (20 :: 32 word) \<noteq> 1
   \<and> length [0 :: 32 word] = unat (1 :: 32 word)
   \<and> (12 :: 32 word) = 20 - 8
   \<and> (12 :: 32 word) \<noteq> 12 + 4 * 1"
proof -
  let ?fs = "[0, 0, 0, 20, 0x53, 0x41, 0x33, 0x44, 0, 0, 0, 0, 0, 0, 0, 0,
              0, 0, 0, 1] :: byte list"
  let ?b = "\<lparr> m_name = TAG_SA3D, m_iPosition = 0, m_iHeaderSize = 8, m_iContentSize = 12,
             m_iVersion = 0, m_iAmbisonicType = 0, m_iAmbisonicOrder = 0,
             m_iAmbisonicChannelOrdering = 0, m_iAmbisonicNormalization = 0,
             m_iNumChannels = 1, m_ChannelMap = [0] \<rparr>"
  have l: "SA3DBox_load ex_junk ?fs 0 20 = Inr ?b"
    by (simp add: load_eval)
  have r: "readUint32 ex_junk ?fs (unat (0 :: 32 word)) = (20, 4)"
    by (simp add: load_eval)
  have "SA3DBox_load ex_junk ?fs 0 20 = Inr ?b
        \<and> readUint32 ex_junk ?fs (unat (0 :: 32 word)) = (20, 4) \<and> (20 :: 32 word) \<noteq> 1"
    using l r by simp
  from content_size_invariant [THEN conjunct2, THEN conjunct2, THEN mp, OF this]
    content_size_invariant [THEN conjunct2, THEN conjunct1, THEN mp, OF l] l r
  show ?thesis by simp
qed

text \<open>
  C7 as stated fails for a loaded box: a stream that declares 24 bytes and no channel
  loads into a box of content size 16, not 12.
\<close>

theorem load_size_not_from_channels_counterexample:
  "SA3DBox_load ex_junk [0, 0, 0, 24, 0x53, 0x41, 0x33, 0x44, 0, 0, 0, 0, 0, 1, 0, 0, 0, 0, 0, 0,
                 0, 0, 0, 0] 0 24
     = Inr \<lparr> m_name = TAG_SA3D, m_iPosition = 0, m_iHeaderSize = 8, m_iContentSize = 16,
             m_iVersion = 0, m_iAmbisonicType = 0, m_iAmbisonicOrder = 1,
             m_iAmbisonicChannelOrdering = 0, m_iAmbisonicNormalization = 0,
             m_iNumChannels = 0, m_ChannelMap = [] \<rparr>
   \<and> (16 :: 32 word) \<noteq> 12 + 4 * 0"
  by (simp add: load_eval)

section \<open>SA3DBox: round trips\<close>

lemma size_created_not_1: "(20 :: 32 word) + 4 * n \<noteq> 1"
proof
  assume "20 + 4 * n = 1"
  then have "even (1 :: 32 word)" by (metis even_add even_mult_iff even_numeral)
  then show False by simp
qed

lemma save_created:
  "SA3DBox_save (SA3DBox_create n) [] =
     writeUint32 (20 + 4 * n) @ TAG_SA3D @ writeUint8 0 @ writeUint8 0
     @ writeUint32 (m_iAmbisonicOrder (SA3DBox_create n)) @ writeUint8 0 @ writeUint8 0
     @ writeUint32 n @ concat (map writeUint32 (map word_of_nat [0..<unat n])) @ []"
  by (simp add: save_bytes create_fields size_box_def TAG_SA3D_def)

lemma length_save_created:
  "word_of_nat (length (SA3DBox_save (SA3DBox_create n) [])) = (20 :: 32 word) + 4 * n"
proof -
  have "length (concat (map (writeUint32 \<circ> f) xs)) = 4 * length xs" for f and xs :: "nat list"
    by (induction xs) simp_all
  then show ?thesis
    by (simp add: save_created TAG_SA3D_def writeUint8_def)
qed

text \<open>
  C6: for a channel count \<open>n > 0\<close>, the bytes that \<open>save\<close> writes for the
  created box load again, up to any end not before the last byte written, into a box
  with the same version, ambisonic type, order, channel ordering, normalization,
  channel count and channel map.
\<close>

theorem create_save_load:
  "0 < sint n \<and> word_of_nat (length (SA3DBox_save (SA3DBox_create n) [])) \<le> iEnd \<Longrightarrow>
   \<exists>b. SA3DBox_load junk (SA3DBox_save (SA3DBox_create n) []) 0 iEnd = Inr b
     \<and> m_iVersion b = m_iVersion (SA3DBox_create n)
     \<and> m_iAmbisonicType b = m_iAmbisonicType (SA3DBox_create n)
     \<and> m_iAmbisonicOrder b = m_iAmbisonicOrder (SA3DBox_create n)
     \<and> m_iAmbisonicChannelOrdering b = m_iAmbisonicChannelOrdering (SA3DBox_create n)
     \<and> m_iAmbisonicNormalization b = m_iAmbisonicNormalization (SA3DBox_create n)
     \<and> m_iNumChannels b = m_iNumChannels (SA3DBox_create n)
     \<and> m_ChannelMap b = m_ChannelMap (SA3DBox_create n)"
proof -
  assume h: "0 < sint n \<and> word_of_nat (length (SA3DBox_save (SA3DBox_create n) [])) \<le> iEnd"
  then have le: "\<not> iEnd < 20 + 4 * n" by (simp add: length_save_created not_less)
  have tag: "memcmp_eq TAG_SA3D TAG_SA3D sizeof_deref_TAG_SA3D" by (simp add: memcmp_eq_def)
  have "unat n = length (map (word_of_nat :: nat \<Rightarrow> 32 word) [0..<unat n])" by simp
  from load_standard [OF save_created _ size_created_not_1 this, where iEnd = iEnd and junk = junk]
  have "SA3DBox_load junk (SA3DBox_save (SA3DBox_create n) []) 0 iEnd =
     Inr (new_SA3DBox
          \<lparr> m_iPosition := 0,
            m_iContentSize := 20 + 4 * n - 8,
            m_iVersion := 0,
            m_iAmbisonicType := 0,
            m_iAmbisonicOrder := m_iAmbisonicOrder (SA3DBox_create n),
            m_iAmbisonicChannelOrdering := 0,
            m_iAmbisonicNormalization := 0,
            m_iNumChannels := n,
            m_ChannelMap := map word_of_nat [0..<unat n] \<rparr>)"
    using le tag by (simp add: TAG_SA3D_def)
  then show ?thesis by (simp add: create_fields)
qed

theorem create_save_load_witness:
  "0 < sint (4 :: 32 word)
   \<and> (\<exists>b. SA3DBox_load ex_junk (SA3DBox_save (SA3DBox_create 4) []) 0 36 = Inr b
          \<and> m_iAmbisonicOrder b = 1 \<and> m_iNumChannels b = 4 \<and> m_ChannelMap b = [0, 1, 2, 3])"
proof -
  have "0 < sint (4 :: 32 word)
        \<and> word_of_nat (length (SA3DBox_save (SA3DBox_create 4) [])) \<le> (36 :: 32 word)"
    by (simp add: length_save_created)
  from create_save_load [OF this]
  obtain b where "SA3DBox_load ex_junk (SA3DBox_save (SA3DBox_create 4) []) 0 36 = Inr b"
    and "m_iAmbisonicOrder b = m_iAmbisonicOrder (SA3DBox_create 4)"
    and "m_iNumChannels b = m_iNumChannels (SA3DBox_create 4)"
    and "m_ChannelMap b = m_ChannelMap (SA3DBox_create 4)"
    by blast
  then have "SA3DBox_load ex_junk (SA3DBox_save (SA3DBox_create 4) []) 0 36 = Inr b
          \<and> m_iAmbisonicOrder b = 1 \<and> m_iNumChannels b = 4 \<and> m_ChannelMap b = [0, 1, 2, 3]"
    by (simp add: create_fields double_to_uint32_def upt_4)
  then show ?thesis by (intro conjI exI [of _ b]) simp_all
qed

lemma ext_bytes:
  "writeUint32 1 @ TAG_SA3D @ writeUint64 (ucast (44 :: 32 word)) @ writeUint8 0 @ writeUint8 0
     @ writeUint32 1 @ writeUint8 0 @ writeUint8 0 @ writeUint32 4
     @ concat (map writeUint32 [0, 1, 2, 3]) @ []
   = [0, 0, 0, 1, 0x53, 0x41, 0x33, 0x44, 0, 0, 0, 0, 0, 0, 0, 44,
        0, 0, 0, 0, 0, 1, 0, 0, 0, 0, 0, 4,
        0, 0, 0, 0, 0, 0, 0, 1, 0, 0, 0, 2, 0, 0, 0, 3]"
  by (simp add: writeUint32_def writeUint64_def writeUint8_def TAG_SA3D_def)

text \<open>
  C3 fails on the code: the box of four channels, its header size set to 16, has
  content size 28; \<open>save\<close> writes the escape 1, the tag and the 64-bit size
  44; \<open>load\<close> of these bytes gives a box of header size 8 and content size 36.
\<close>

theorem extended_header_reload:
  "m_iContentSize ((SA3DBox_create 4)\<lparr>m_iHeaderSize := 16\<rparr>) = 28
   \<and> SA3DBox_save ((SA3DBox_create 4)\<lparr>m_iHeaderSize := 16\<rparr>) []
     = [0, 0, 0, 1, 0x53, 0x41, 0x33, 0x44, 0, 0, 0, 0, 0, 0, 0, 44,
        0, 0, 0, 0, 0, 1, 0, 0, 0, 0, 0, 4,
        0, 0, 0, 0, 0, 0, 0, 1, 0, 0, 0, 2, 0, 0, 0, 3]
   \<and> SA3DBox_load junk [0, 0, 0, 1, 0x53, 0x41, 0x33, 0x44, 0, 0, 0, 0, 0, 0, 0, 44,
        0, 0, 0, 0, 0, 1, 0, 0, 0, 0, 0, 4,
        0, 0, 0, 0, 0, 0, 0, 1, 0, 0, 0, 2, 0, 0, 0, 3] 0 44
     = Inr \<lparr> m_name = TAG_SA3D, m_iPosition = 0, m_iHeaderSize = 8, m_iContentSize = 36,
             m_iVersion = 0, m_iAmbisonicType = 0, m_iAmbisonicOrder = 1,
             m_iAmbisonicChannelOrdering = 0, m_iAmbisonicNormalization = 0,
             m_iNumChannels = 4, m_ChannelMap = [0, 1, 2, 3] \<rparr>"
proof (intro conjI)
  show "m_iContentSize ((SA3DBox_create 4)\<lparr>m_iHeaderSize := 16\<rparr>) = 28"
    by (simp add: create_fields)
  have "SA3DBox_save ((SA3DBox_create 4)\<lparr>m_iHeaderSize := 16\<rparr>) []
     = writeUint32 1 @ TAG_SA3D @ writeUint64 (ucast (44 :: 32 word)) @ writeUint8 0 @ writeUint8 0
     @ writeUint32 1 @ writeUint8 0 @ writeUint8 0 @ writeUint32 4
     @ concat (map writeUint32 [0, 1, 2, 3]) @ []"
    by (simp add: save_bytes create_fields size_box_def TAG_SA3D_def double_to_uint32_def upt_4)
  then show "SA3DBox_save ((SA3DBox_create 4)\<lparr>m_iHeaderSize := 16\<rparr>) []
     = [0, 0, 0, 1, 0x53, 0x41, 0x33, 0x44, 0, 0, 0, 0, 0, 0, 0, 44,
        0, 0, 0, 0, 0, 1, 0, 0, 0, 0, 0, 4,
        0, 0, 0, 0, 0, 0, 0, 1, 0, 0, 0, 2, 0, 0, 0, 3]"
    by (simp only: ext_bytes)
  have n: "unat (4 :: 32 word) = length [0, 1, 2, 3 :: 32 word]" by simp
  have t: "length TAG_SA3D = 4" by (simp add: TAG_SA3D_def)
  from load_extended [OF ext_bytes [symmetric] t n, where iEnd = 44 and junk = junk]
  show "SA3DBox_load junk [0, 0, 0, 1, 0x53, 0x41, 0x33, 0x44, 0, 0, 0, 0, 0, 0, 0, 44,
        0, 0, 0, 0, 0, 1, 0, 0, 0, 0, 0, 4,
        0, 0, 0, 0, 0, 0, 0, 1, 0, 0, 0, 2, 0, 0, 0, 3] 0 44
     = Inr \<lparr> m_name = TAG_SA3D, m_iPosition = 0, m_iHeaderSize = 8, m_iContentSize = 36,
             m_iVersion = 0, m_iAmbisonicType = 0, m_iAmbisonicOrder = 1,
             m_iAmbisonicChannelOrdering = 0, m_iAmbisonicNormalization = 0,
             m_iNumChannels = 4, m_ChannelMap = [0, 1, 2, 3] \<rparr>"
    by (simp add: memcmp_eq_def new_SA3DBox_def TAG_SA3D_def)
qed

section \<open>SA3DBox: the tag check\<close>

text \<open>
  C4 fails on the code: the tag is compared in its first byte only. A box whose tag is
  the four bytes of "SXYZ" is loaded as a spatial-audio box.
\<close>

theorem load_accepts_other_tag:
  "take 4 (drop 4 [0, 0, 0, 20, 0x53, 0x58, 0x59, 0x5A, 0, 0, 0, 0, 0, 1, 0, 0, 0, 0, 0, 0])
     \<noteq> TAG_SA3D
   \<and> SA3DBox_load junk [0, 0, 0, 20, 0x53, 0x58, 0x59, 0x5A, 0, 0, 0, 0, 0, 1, 0, 0, 0, 0, 0, 0] 0 20
     = Inr \<lparr> m_name = TAG_SA3D, m_iPosition = 0, m_iHeaderSize = 8, m_iContentSize = 12,
             m_iVersion = 0, m_iAmbisonicType = 0, m_iAmbisonicOrder = 1,
             m_iAmbisonicChannelOrdering = 0, m_iAmbisonicNormalization = 0,
             m_iNumChannels = 0, m_ChannelMap = [] \<rparr>"
  by (simp add: load_eval)

end
